theory Spec2Isabelle
  imports Complex_Main "HOL-Library.Word"
begin

section \<open>The SPICE manager of OpenSpace (src/util/spicemanager.cpp)\<close>

text \<open>
  A shallow embedding of the kernel registry, the coverage tables, the coverage queries,
  the position and transform queries and the two estimators of \<^verbatim>\<open>SpiceManager\<close>.

  Conventions of the embedding:
  \<^item> a \<^verbatim>\<open>double\<close> is a \<^typ>\<open>real\<close>: rounding, infinities and NaN are outside the model;
  \<^item> a \<^verbatim>\<open>SpiceInt\<close> / \<^verbatim>\<open>int\<close> id is an \<^typ>\<open>int\<close>; the one arithmetic operation on ids
    (\<^verbatim>\<open>id *= 1000\<close>) has its 32-bit signed range written out;
  \<^item> a \<^verbatim>\<open>std::set<double>\<close> is the list of its elements in ascending order, without
    duplicates; an iterator into it is an index, \<^verbatim>\<open>begin()\<close> is 0 and \<^verbatim>\<open>end()\<close> the length;
  \<^item> a \<^verbatim>\<open>std::map\<close> is a partial function;
  \<^item> a \<^verbatim>\<open>throw\<close>, a failed \<^verbatim>\<open>ghoul_assert\<close> and an operation C++ leaves undefined are
    values of the type \<open>error\<close>; a function that has effects returns its outcome
    together with the state it leaves, also when it throws;
  \<^item> the CSPICE toolkit and the file system are external: their answers are the fields
    of the record \<open>env\<close>, and what the code reads of their global state (the failure
    flag of \<^verbatim>\<open>failed_c\<close>/\<^verbatim>\<open>reset_c\<close>, the working directory, the kernels handed to
    \<^verbatim>\<open>furnsh_c\<close> and \<^verbatim>\<open>unload_c\<close>) is part of the state.
\<close>

subsection \<open>Vectors and matrices (glm)\<close>

type_synonym dvec3 = "real \<times> real \<times> real"

text \<open>A \<^verbatim>\<open>glm::dmat3\<close> is its three columns.\<close>

type_synonym dmat3 = "dvec3 \<times> dvec3 \<times> dvec3"

text \<open>\<^verbatim>\<open>glm::dvec3(a)\<close>: every component is \<open>a\<close>.\<close>

definition dvec3_splat :: "real \<Rightarrow> dvec3" where
  "dvec3_splat a = (a, a, a)"

text \<open>\<^verbatim>\<open>v * a\<close> and \<^verbatim>\<open>v + w\<close> on vectors, component-wise.\<close>

fun vec_scale :: "dvec3 \<Rightarrow> real \<Rightarrow> dvec3" where
  "vec_scale (x, y, z) a = (x * a, y * a, z * a)"

fun vec_add :: "dvec3 \<Rightarrow> dvec3 \<Rightarrow> dvec3" where
  "vec_add (x, y, z) (x', y', z') = (x + x', y + y', z + z')"

text \<open>\<^verbatim>\<open>glm::dmat3(a)\<close>: \<open>a\<close> on the diagonal.\<close>

definition dmat3_diag :: "real \<Rightarrow> dmat3" where
  "dmat3_diag a = ((a, 0, 0), (0, a, 0), (0, 0, a))"

fun mat_scale :: "dmat3 \<Rightarrow> real \<Rightarrow> dmat3" where
  "mat_scale (c0, c1, c2) a = (vec_scale c0 a, vec_scale c1 a, vec_scale c2 a)"

fun mat_add :: "dmat3 \<Rightarrow> dmat3 \<Rightarrow> dmat3" where
  "mat_add (c0, c1, c2) (d0, d1, d2) = (vec_add c0 d0, vec_add c1 d1, vec_add c2 d2)"

fun transpose_dmat3 :: "dmat3 \<Rightarrow> dmat3" where
  "transpose_dmat3 ((a, b, c), (d, e, f), (g, h, i)) = ((a, d, g), (b, e, h), (c, f, i))"

subsection \<open>Aberration corrections\<close>

datatype Type =
  None_Type | LightTime | LightTimeStellar | ConvergedNewtonian | ConvergedNewtonianStellar

datatype Direction = Reception | Transmission

datatype AberrationCorrection = AberrationCorrection Type Direction

datatype error = SpiceException | AssertionFailed | UndefinedBehaviour

text \<open>The static table of the constructor from a string.\<close>

definition Mapping :: "(string \<times> Type \<times> Direction) list" where
  "Mapping =
    [(''NONE'', None_Type, Reception),
     (''LT'', LightTime, Reception),
     (''LT+S'', LightTimeStellar, Reception),
     (''CN'', ConvergedNewtonian, Reception),
     (''CN+S'', ConvergedNewtonianStellar, Reception),
     (''XLT'', LightTime, Transmission),
     (''XLT+S'', LightTimeStellar, Transmission),
     (''XCN'', ConvergedNewtonian, Transmission),
     (''XCN+S'', ConvergedNewtonianStellar, Transmission)]"

text \<open>
  \<^verbatim>\<open>AberrationCorrection(const std::string& identifier)\<close>: both assertions follow the
  lookup; an identifier that is not in the table fails the second one.
\<close>

definition AberrationCorrection_of_string :: "string \<Rightarrow> error + AberrationCorrection" where
  "AberrationCorrection_of_string identifier =
    (let it = map_of Mapping identifier in
     if identifier = [] then Inl AssertionFailed
     else case it of
       None \<Rightarrow> Inl AssertionFailed
     | Some (t, d) \<Rightarrow> Inr (AberrationCorrection t d))"

text \<open>\<^verbatim>\<open>operator const char*()\<close>.\<close>

fun AberrationCorrection_to_string :: "AberrationCorrection \<Rightarrow> string" where
  "AberrationCorrection_to_string (AberrationCorrection None_Type d) = ''NONE''"
| "AberrationCorrection_to_string (AberrationCorrection LightTime d) =
     (if d = Reception then ''LT'' else ''XLT'')"
| "AberrationCorrection_to_string (AberrationCorrection LightTimeStellar d) =
     (if d = Reception then ''LT+S'' else ''XLT+S'')"
| "AberrationCorrection_to_string (AberrationCorrection ConvergedNewtonian d) =
     (if d = Reception then ''CN'' else ''XCN'')"
| "AberrationCorrection_to_string (AberrationCorrection ConvergedNewtonianStellar d) =
     (if d = Reception then ''CN+S'' else ''XCN+S'')"

text \<open>The nine canonical short codes.\<close>

definition canonical_codes :: "string list" where
  "canonical_codes =
    [''NONE'', ''LT'', ''LT+S'', ''CN'', ''CN+S'', ''XLT'', ''XLT+S'', ''XCN'', ''XCN+S'']"

subsection \<open>The environment and the state\<close>

text \<open>
  Modelled from the spec: the kernel handle. \<^verbatim>\<open>KernelHandle\<close> is declared in the header
  \<^verbatim>\<open>spicemanager.h\<close>, which is not among the sources; the spec calls it an opaque non-zero
  integer, assigned monotonically, and \<^verbatim>\<open>loadKernel\<close> asserts that it has not
  "wrapped around to 0": an unsigned machine integer, here of 32 bits.
\<close>

type_synonym KernelHandle = "32 word"

text \<open>
  \<^verbatim>\<open>KernelInformation\<close>: the path, the handle (field \<^verbatim>\<open>id\<close>) and the reference count of a
  loaded kernel.
\<close>

record KernelInformation =
  path :: string
  id_handle :: KernelHandle
  refCount :: int

text \<open>The two calls that change what the toolkit has loaded, as the code issues them.\<close>

datatype toolkit_call = Furnsh string | Unload string

text \<open>
  The external collaborators. A toolkit routine that can signal an error returns, with
  the contents it leaves in its output buffers, whether it signalled one (\<open>True\<close>: the
  failure flag is raised).
\<close>

record env =
  absPath :: "string \<Rightarrow> string"
  is_regular_file :: "string \<Rightarrow> bool"
  is_directory :: "string \<Rightarrow> bool"
  parent_path :: "string \<Rightarrow> string"
  extension :: "string \<Rightarrow> string"
  furnsh_c :: "string \<Rightarrow> string \<Rightarrow> bool"
  spkobj_c :: "string \<Rightarrow> int list \<times> bool"
  spkcov_c :: "string \<Rightarrow> int \<Rightarrow> (real \<times> real) list \<times> bool"
  ckobj_c :: "string \<Rightarrow> int list \<times> bool"
  ckcov_c :: "string \<Rightarrow> int \<Rightarrow> (real \<times> real) list \<times> bool"
  bods2c_c :: "string \<Rightarrow> int \<times> bool"
  namfrm_c :: "string \<Rightarrow> int"
  spkpos_c ::
    "string \<Rightarrow> real \<Rightarrow> string \<Rightarrow> AberrationCorrection \<Rightarrow> string \<Rightarrow> dvec3 \<times> real \<times> bool"
  pxform_c :: "string \<Rightarrow> string \<Rightarrow> real \<Rightarrow> dmat3 \<times> bool"

text \<open>
  The members of \<^verbatim>\<open>SpiceManager\<close> (\<^verbatim>\<open>_loadedKernels\<close>, \<^verbatim>\<open>_lastAssignedKernel\<close>, the
  two interval tables, the two boundary-point tables, \<^verbatim>\<open>_useExceptions\<close>) and the global
  state around it: the toolkit's failure flag, the process's working directory and the
  sequence of \<^verbatim>\<open>furnsh_c\<close>/\<^verbatim>\<open>unload_c\<close> calls made so far.
\<close>

record SpiceManager =
  loadedKernels :: "KernelInformation list"
  lastAssignedKernel :: KernelHandle
  spkIntervals :: "int \<rightharpoonup> (real \<times> real) list"
  ckIntervals :: "int \<rightharpoonup> (real \<times> real) list"
  spkCoverageTimes :: "int \<rightharpoonup> real list"
  ckCoverageTimes :: "int \<rightharpoonup> real list"
  useExceptions :: bool
  failed :: bool
  current_path :: string
  toolkit_calls :: "toolkit_call list"

subsection \<open>Errors of the toolkit\<close>

text \<open>
  \<^verbatim>\<open>throwSpiceError\<close>: the flag is reset in both modes; the exception is thrown only when
  exception handling is on.
\<close>

definition throwSpiceError :: "SpiceManager \<Rightarrow> (error + unit) \<times> SpiceManager" where
  "throwSpiceError s =
    (if useExceptions s then (Inl SpiceException, s\<lparr>failed := False\<rparr>)
     else (Inr (), s\<lparr>failed := False\<rparr>))"

text \<open>The idiom \<^verbatim>\<open>if (failed_c()) { throwSpiceError(...); }\<close>.\<close>

definition check_failed :: "SpiceManager \<Rightarrow> (error + unit) \<times> SpiceManager" where
  "check_failed s = (if failed s then throwSpiceError s else (Inr (), s))"

text \<open>A toolkit routine that signalled an error raises the flag; the flag stays raised.\<close>

definition signal :: "bool \<Rightarrow> SpiceManager \<Rightarrow> SpiceManager" where
  "signal err s = s\<lparr>failed := (failed s \<or> err)\<rparr>"

subsection \<open>Names to ids\<close>

definition naifId :: "env \<Rightarrow> SpiceManager \<Rightarrow> string \<Rightarrow> error + int" where
  "naifId E s body =
    (if body = [] then Inl AssertionFailed
     else let (id', success) = bods2c_c E body in
       if \<not> success \<and> useExceptions s then Inl SpiceException else Inr id')"

definition frameId :: "env \<Rightarrow> SpiceManager \<Rightarrow> string \<Rightarrow> error + int" where
  "frameId E s frame =
    (if frame = [] then Inl AssertionFailed
     else let id' = namfrm_c E frame in
       if id' = 0 \<and> useExceptions s then Inl SpiceException else Inr id')"

subsection \<open>Coverage queries\<close>

text \<open>The loop over the intervals of one id: strict on both bounds, the first hit returns.\<close>

fun inside_some :: "(real \<times> real) list \<Rightarrow> real \<Rightarrow> bool" where
  "inside_some [] et = False"
| "inside_some (vecElement # rest) et =
     (if fst vecElement < et \<and> snd vecElement > et then True else inside_some rest et)"

definition hasSpkCoverage :: "env \<Rightarrow> SpiceManager \<Rightarrow> string \<Rightarrow> real \<Rightarrow> error + bool" where
  "hasSpkCoverage E s target et =
    (if target = [] then Inl AssertionFailed
     else case naifId E s target of
       Inl e \<Rightarrow> Inl e
     | Inr id' \<Rightarrow>
         if id' = 0 then Inr True
         else
           (case spkIntervals s id' of
              Some intervalVector \<Rightarrow> Inr (inside_some intervalVector et)
            | None \<Rightarrow> Inr False))"

definition spkCoverage :: "env \<Rightarrow> SpiceManager \<Rightarrow> string \<Rightarrow> error + (real \<times> real) list" where
  "spkCoverage E s target =
    (if target = [] then Inl AssertionFailed
     else case naifId E s target of
       Inl e \<Rightarrow> Inl e
     | Inr id' \<Rightarrow> (case spkIntervals s id' of Some v \<Rightarrow> Inr v | None \<Rightarrow> Inr []))"

definition hasCkCoverage :: "env \<Rightarrow> SpiceManager \<Rightarrow> string \<Rightarrow> real \<Rightarrow> error + bool" where
  "hasCkCoverage E s frame et =
    (if frame = [] then Inl AssertionFailed
     else case frameId E s frame of
       Inl e \<Rightarrow> Inl e
     | Inr id' \<Rightarrow>
         (case ckIntervals s id' of
           Some intervalVector \<Rightarrow> Inr (inside_some intervalVector et)
         | None \<Rightarrow> Inr False))"

text \<open>
  \<^verbatim>\<open>id *= 1000\<close> on an \<^verbatim>\<open>int\<close>: the product when it fits 32 signed bits; signed overflow
  is undefined in C++.
\<close>

definition times_1000 :: "int \<Rightarrow> error + int" where
  "times_1000 i =
    (if - 2147483648 \<le> i * 1000 \<and> i * 1000 \<le> 2147483647 then Inr (i * 1000)
     else Inl UndefinedBehaviour)"

definition ckCoverage :: "env \<Rightarrow> SpiceManager \<Rightarrow> string \<Rightarrow> error + (real \<times> real) list" where
  "ckCoverage E s target =
    (if target = [] then Inl AssertionFailed
     else case naifId E s target of
       Inl e \<Rightarrow> Inl e
     | Inr id' \<Rightarrow>
         (case ckIntervals s id' of
           Some v \<Rightarrow> Inr v
         | None \<Rightarrow>
             (case times_1000 id' of
               Inl e \<Rightarrow> Inl e
             | Inr id1000 \<Rightarrow>
                 (case ckIntervals s id1000 of Some v \<Rightarrow> Inr v | None \<Rightarrow> Inr []))))"

subsection \<open>The kernel registry\<close>

text \<open>
  \<^verbatim>\<open>std::find_if\<close> over a vector: the index of the first element that satisfies the
  predicate, the length of the vector (\<^verbatim>\<open>end()\<close>) when there is none.
\<close>

fun find_if :: "('a \<Rightarrow> bool) \<Rightarrow> 'a list \<Rightarrow> nat" where
  "find_if P [] = 0"
| "find_if P (x # xs) = (if P x then 0 else Suc (find_if P xs))"

text \<open>\<^verbatim>\<open>vector::erase(it)\<close>.\<close>

definition erase :: "nat \<Rightarrow> 'a list \<Rightarrow> 'a list" where
  "erase i xs = take i xs @ drop (Suc i) xs"

text \<open>\<^verbatim>\<open>std::set::insert\<close> on the ascending list of the elements.\<close>

fun set_insert :: "real \<Rightarrow> real list \<Rightarrow> real list" where
  "set_insert x [] = [x]"
| "set_insert x (y # ys) =
     (if x < y then x # y # ys else if x = y then y # ys else y # set_insert x ys)"

text \<open>\<^verbatim>\<open>m[k]\<close> on a map of containers: a missing key stands for the empty container.\<close>

definition at_or_empty :: "(int \<rightharpoonup> 'a list) \<Rightarrow> int \<Rightarrow> 'a list" where
  "at_or_empty m k = (case m k of None \<Rightarrow> [] | Some v \<Rightarrow> v)"

text \<open>
  The inner loop of \<^verbatim>\<open>findSpkCoverage\<close> over the intervals of the window \<^verbatim>\<open>cover\<close>:
  \<^verbatim>\<open>wnfetd_c\<close> fetches the j-th interval (j is in range, so it signals nothing), the flag
  is tested, and the end, the begin and the interval are recorded.
\<close>

fun spkRecordIntervals ::
  "int \<Rightarrow> (real \<times> real) list \<Rightarrow> SpiceManager \<Rightarrow> (error + unit) \<times> SpiceManager" where
  "spkRecordIntervals obj [] s = (Inr (), s)"
| "spkRecordIntervals obj ((b, e) # rest) s =
     (case check_failed s of
        (Inl err, s1) \<Rightarrow> (Inl err, s1)
      | (Inr _, s1) \<Rightarrow>
          spkRecordIntervals obj rest
            (s1\<lparr>spkCoverageTimes := (spkCoverageTimes s1)
                   (obj \<mapsto> set_insert b (set_insert e (at_or_empty (spkCoverageTimes s1) obj))),
                 spkIntervals := (spkIntervals s1)
                   (obj \<mapsto> at_or_empty (spkIntervals s1) obj @ [(b, e)])\<rparr>))"

text \<open>The outer loop over the ids of the file.\<close>

fun spkRecordObjects ::
  "env \<Rightarrow> string \<Rightarrow> int list \<Rightarrow> SpiceManager \<Rightarrow> (error + unit) \<times> SpiceManager" where
  "spkRecordObjects E p [] s = (Inr (), s)"
| "spkRecordObjects E p (obj # rest) s =
     (let (cover, err) = spkcov_c E p obj in
      case check_failed (signal err s) of
        (Inl e, s1) \<Rightarrow> (Inl e, s1)
      | (Inr _, s1) \<Rightarrow>
          (case spkRecordIntervals obj cover s1 of
             (Inl e, s2) \<Rightarrow> (Inl e, s2)
           | (Inr _, s2) \<Rightarrow> spkRecordObjects E p rest s2))"

definition findSpkCoverage ::
  "env \<Rightarrow> string \<Rightarrow> SpiceManager \<Rightarrow> (error + unit) \<times> SpiceManager" where
  "findSpkCoverage E p s =
    (if p = [] \<or> \<not> is_regular_file E p then (Inl AssertionFailed, s)
     else let (ids, err) = spkobj_c E p in
       case check_failed (signal err s) of
         (Inl e, s1) \<Rightarrow> (Inl e, s1)
       | (Inr _, s1) \<Rightarrow> spkRecordObjects E p ids s1)"

text \<open>\<^verbatim>\<open>findCkCoverage\<close>: the same two loops over the orientation tables.\<close>

fun ckRecordIntervals ::
  "int \<Rightarrow> (real \<times> real) list \<Rightarrow> SpiceManager \<Rightarrow> (error + unit) \<times> SpiceManager" where
  "ckRecordIntervals frame [] s = (Inr (), s)"
| "ckRecordIntervals frame ((b, e) # rest) s =
     (case check_failed s of
        (Inl err, s1) \<Rightarrow> (Inl err, s1)
      | (Inr _, s1) \<Rightarrow>
          ckRecordIntervals frame rest
            (s1\<lparr>ckCoverageTimes := (ckCoverageTimes s1)
                   (frame \<mapsto> set_insert b (set_insert e (at_or_empty (ckCoverageTimes s1) frame))),
                 ckIntervals := (ckIntervals s1)
                   (frame \<mapsto> at_or_empty (ckIntervals s1) frame @ [(b, e)])\<rparr>))"

fun ckRecordObjects ::
  "env \<Rightarrow> string \<Rightarrow> int list \<Rightarrow> SpiceManager \<Rightarrow> (error + unit) \<times> SpiceManager" where
  "ckRecordObjects E p [] s = (Inr (), s)"
| "ckRecordObjects E p (frame # rest) s =
     (let (cover, err) = ckcov_c E p frame in
      case check_failed (signal err s) of
        (Inl e, s1) \<Rightarrow> (Inl e, s1)
      | (Inr _, s1) \<Rightarrow>
          (case ckRecordIntervals frame cover s1 of
             (Inl e, s2) \<Rightarrow> (Inl e, s2)
           | (Inr _, s2) \<Rightarrow> ckRecordObjects E p rest s2))"

definition findCkCoverage ::
  "env \<Rightarrow> string \<Rightarrow> SpiceManager \<Rightarrow> (error + unit) \<times> SpiceManager" where
  "findCkCoverage E p s =
    (if p = [] \<or> \<not> is_regular_file E p then (Inl AssertionFailed, s)
     else let (ids, err) = ckobj_c E p in
       case check_failed (signal err s) of
         (Inl e, s1) \<Rightarrow> (Inl e, s1)
       | (Inr _, s1) \<Rightarrow> ckRecordObjects E p ids s1)"

text \<open>
  The coverage step of \<^verbatim>\<open>loadKernel\<close>, chosen by the extension of the file: \<^verbatim>\<open>.bc\<close> or
  \<^verbatim>\<open>.BC\<close>, \<^verbatim>\<open>.bsp\<close> or \<^verbatim>\<open>.BSP\<close>, nothing for any other extension.
\<close>

definition indexCoverage ::
  "env \<Rightarrow> string \<Rightarrow> SpiceManager \<Rightarrow> (error + unit) \<times> SpiceManager" where
  "indexCoverage E p s =
    (let fileExtension = extension E p in
     if fileExtension = ''.bc'' \<or> fileExtension = ''.BC'' then findCkCoverage E p s
     else if fileExtension = ''.bsp'' \<or> fileExtension = ''.BSP'' then findSpkCoverage E p s
     else (Inr (), s))"

text \<open>
  \<^verbatim>\<open>loadKernel\<close>. The three assertions; the lookup of the absolute path, which on a hit
  only counts the reference; otherwise \<^verbatim>\<open>furnsh_c\<close> in the directory of the file, the
  test of the flag, the coverage step, and the new record under the next handle.
\<close>

definition loadKernel ::
  "env \<Rightarrow> SpiceManager \<Rightarrow> string \<Rightarrow> (error + KernelHandle) \<times> SpiceManager" where
  "loadKernel E s filePath =
    (if filePath = [] \<or> \<not> is_regular_file E filePath
        \<or> \<not> is_directory E (parent_path E filePath)
     then (Inl AssertionFailed, s)
     else
       let p = absPath E filePath;
           it = find_if (\<lambda>info. path info = p) (loadedKernels s)
       in
       if it \<noteq> length (loadedKernels s) then
         (Inr (id_handle (loadedKernels s ! it)),
          s\<lparr>loadedKernels := (loadedKernels s)
               [it := (loadedKernels s ! it)\<lparr>refCount := refCount (loadedKernels s ! it) + 1\<rparr>]\<rparr>)
       else
         let currentDirectory = current_path s;
             s1 = s\<lparr>current_path := parent_path E p\<rparr>;
             s2 = signal (furnsh_c E (current_path s1) p)
                    (s1\<lparr>toolkit_calls := toolkit_calls s1 @ [Furnsh p]\<rparr>);
             s3 = s2\<lparr>current_path := currentDirectory\<rparr>
         in
         case check_failed s3 of
           (Inl e, s4) \<Rightarrow> (Inl e, s4)
         | (Inr _, s4) \<Rightarrow>
             (case indexCoverage E p s4 of
                (Inl e, s5) \<Rightarrow> (Inl e, s5)
              | (Inr _, s5) \<Rightarrow>
                  let kernelId = lastAssignedKernel s5 + 1;
                      s6 = s5\<lparr>lastAssignedKernel := kernelId\<rparr>
                  in
                  if kernelId = 0 then (Inl AssertionFailed, s6)
                  else
                    (Inr kernelId,
                     s6\<lparr>loadedKernels := loadedKernels s6
                          @ [\<lparr>path = p, id_handle = kernelId, refCount = 1\<rparr>]\<rparr>)))"

text \<open>
  \<^verbatim>\<open>unloadKernel(KernelHandle)\<close>: a record whose count is 1 is unloaded from the toolkit
  and erased, any other count is decremented; an unknown handle does nothing.
\<close>

definition unloadKernel :: "SpiceManager \<Rightarrow> KernelHandle \<Rightarrow> (error + unit) \<times> SpiceManager" where
  "unloadKernel s kernelId =
    (if \<not> kernelId \<le> lastAssignedKernel s \<or> kernelId = 0 then (Inl AssertionFailed, s)
     else
       let it = find_if (\<lambda>info. id_handle info = kernelId) (loadedKernels s) in
       if it \<noteq> length (loadedKernels s) then
         if refCount (loadedKernels s ! it) = 1 then
           (Inr (),
            s\<lparr>toolkit_calls := toolkit_calls s @ [Unload (path (loadedKernels s ! it))],
              loadedKernels := erase it (loadedKernels s)\<rparr>)
         else
           (Inr (),
            s\<lparr>loadedKernels := (loadedKernels s)
                 [it := (loadedKernels s ! it)\<lparr>refCount := refCount (loadedKernels s ! it) - 1\<rparr>]\<rparr>)
       else (Inr (), s))"

text \<open>\<^verbatim>\<open>unloadKernel(std::string)\<close>: an unknown path throws when exception handling is on.\<close>

definition unloadKernel_path ::
  "env \<Rightarrow> SpiceManager \<Rightarrow> string \<Rightarrow> (error + unit) \<times> SpiceManager" where
  "unloadKernel_path E s filePath =
    (if filePath = [] then (Inl AssertionFailed, s)
     else
       let p = absPath E filePath;
           it = find_if (\<lambda>info. path info = p) (loadedKernels s)
       in
       if it = length (loadedKernels s) then
         (if useExceptions s then (Inl SpiceException, s) else (Inr (), s))
       else if refCount (loadedKernels s ! it) = 1 then
         (Inr (),
          s\<lparr>toolkit_calls := toolkit_calls s @ [Unload p],
            loadedKernels := erase it (loadedKernels s)\<rparr>)
       else
         (Inr (),
          s\<lparr>loadedKernels := (loadedKernels s)
               [it := (loadedKernels s ! it)\<lparr>refCount := refCount (loadedKernels s ! it) - 1\<rparr>]\<rparr>))"

text \<open>\<^verbatim>\<open>loadedKernels()\<close>: the paths of the records, in the order of the vector.\<close>

definition loadedKernels_paths :: "SpiceManager \<Rightarrow> string list" where
  "loadedKernels_paths s = map path (loadedKernels s)"

subsection \<open>The estimators\<close>

text \<open>
  \<^verbatim>\<open>std::set::lower_bound\<close> (the first element not less than the time) and
  \<^verbatim>\<open>std::set::upper_bound\<close> (the first element greater than the time), as indices into
  the ascending list; the length of the list is \<^verbatim>\<open>end()\<close>.
\<close>

definition lower_bound :: "real list \<Rightarrow> real \<Rightarrow> nat" where
  "lower_bound xs t = length (takeWhile (\<lambda>x. x < t) xs)"

definition upper_bound :: "real list \<Rightarrow> real \<Rightarrow> nat" where
  "upper_bound xs t = length (takeWhile (\<lambda>x. x \<le> t) xs)"

text \<open>
  \<^verbatim>\<open>getEstimatedPosition\<close>. The last argument is the value the caller's \<^verbatim>\<open>lightTime\<close>
  holds at the call; the result carries the position and the value it holds at the
  return. Dereferencing \<^verbatim>\<open>begin()\<close> of an empty set is undefined (the code never stores
  an empty set: an entry is created by an insertion). In the interpolation branch the
  two boundaries are distinct elements of a set, so the divisor is not zero on a list
  that is ascending without duplicates.
\<close>

definition getEstimatedPosition ::
  "env \<Rightarrow> SpiceManager \<Rightarrow> string \<Rightarrow> string \<Rightarrow> string \<Rightarrow> AberrationCorrection \<Rightarrow> real \<Rightarrow> real
    \<Rightarrow> (error + dvec3 \<times> real) \<times> SpiceManager" where
  "getEstimatedPosition E s target observer referenceFrame aberrationCorrection
      ephemerisTime lightTime =
    (if target = [] \<or> observer = [] \<or> referenceFrame = [] \<or> target = observer
     then (Inl AssertionFailed, s)
     else case naifId E s target of
       Inl e \<Rightarrow> (Inl e, s)
     | Inr targetId \<Rightarrow>
         if targetId = 0 then (Inr (dvec3_splat 0, lightTime), s)
         else (case spkCoverageTimes s targetId of
           None \<Rightarrow>
             (if useExceptions s then (Inl SpiceException, s)
              else (Inr (dvec3_splat 0, lightTime), s))
         | Some coveredTimes \<Rightarrow>
             if lower_bound coveredTimes ephemerisTime = 0 then
               (if coveredTimes = [] then (Inl UndefinedBehaviour, s)
                else
                  let (pos, lt, err) =
                        spkpos_c E target (hd coveredTimes) referenceFrame
                          aberrationCorrection observer
                  in case check_failed (signal err s) of
                       (Inl e, s1) \<Rightarrow> (Inl e, s1)
                     | (Inr _, s1) \<Rightarrow> (Inr (pos, lt), s1))
             else if upper_bound coveredTimes ephemerisTime = length coveredTimes then
               (let (pos, lt, err) =
                      spkpos_c E target (last coveredTimes) referenceFrame
                        aberrationCorrection observer
                in case check_failed (signal err s) of
                     (Inl e, s1) \<Rightarrow> (Inl e, s1)
                   | (Inr _, s1) \<Rightarrow> (Inr (pos, lt), s1))
             else
               (let timeEarlier = coveredTimes ! (lower_bound coveredTimes ephemerisTime - 1);
                    (posEarlier, ltEarlier, err1) =
                      spkpos_c E target timeEarlier referenceFrame aberrationCorrection observer;
                    timeLater = coveredTimes ! upper_bound coveredTimes ephemerisTime;
                    (posLater, ltLater, err2) =
                      spkpos_c E target timeLater referenceFrame aberrationCorrection observer
                in case check_failed (signal err2 (signal err1 s)) of
                     (Inl e, s1) \<Rightarrow> (Inl e, s1)
                   | (Inr _, s1) \<Rightarrow>
                       let t = (ephemerisTime - timeEarlier) / (timeLater - timeEarlier) in
                       (Inr (vec_add (vec_scale posEarlier (1 - t)) (vec_scale posLater t),
                             ltEarlier * (1 - t) + ltLater * t),
                        s1))))"

text \<open>
  \<^verbatim>\<open>getEstimatedTransformMatrix\<close>: the same three cases over the boundary points of the
  source frame; here the flag is tested after each call of \<^verbatim>\<open>pxform_c\<close>.
\<close>

definition getEstimatedTransformMatrix ::
  "env \<Rightarrow> SpiceManager \<Rightarrow> string \<Rightarrow> string \<Rightarrow> real \<Rightarrow> (error + dmat3) \<times> SpiceManager" where
  "getEstimatedTransformMatrix E s fromFrame toFrame time =
    (case frameId E s fromFrame of
       Inl e \<Rightarrow> (Inl e, s)
     | Inr idFrame \<Rightarrow>
         (case ckCoverageTimes s idFrame of
            None \<Rightarrow>
              (if useExceptions s then (Inl SpiceException, s)
               else (Inr (dmat3_diag 1), s))
          | Some coveredTimes \<Rightarrow>
              if lower_bound coveredTimes time = 0 then
                (if coveredTimes = [] then (Inl UndefinedBehaviour, s)
                 else
                   let (result, err) = pxform_c E fromFrame toFrame (hd coveredTimes)
                   in case check_failed (signal err s) of
                        (Inl e, s1) \<Rightarrow> (Inl e, s1)
                      | (Inr _, s1) \<Rightarrow> (Inr result, s1))
              else if upper_bound coveredTimes time = length coveredTimes then
                (let (result, err) = pxform_c E fromFrame toFrame (last coveredTimes)
                 in case check_failed (signal err s) of
                      (Inl e, s1) \<Rightarrow> (Inl e, s1)
                    | (Inr _, s1) \<Rightarrow> (Inr result, s1))
              else
                (let earlier = coveredTimes ! (lower_bound coveredTimes time - 1);
                     later = coveredTimes ! upper_bound coveredTimes time;
                     (earlierTransform, err1) = pxform_c E fromFrame toFrame earlier
                 in case check_failed (signal err1 s) of
                      (Inl e, s1) \<Rightarrow> (Inl e, s1)
                    | (Inr _, s1) \<Rightarrow>
                        let (laterTransform, err2) = pxform_c E fromFrame toFrame later
                        in (case check_failed (signal err2 s1) of
                              (Inl e, s2) \<Rightarrow> (Inl e, s2)
                            | (Inr _, s2) \<Rightarrow>
                                let t = (time - earlier) / (later - earlier) in
                                (Inr (mat_add (mat_scale earlierTransform (1 - t))
                                        (mat_scale laterTransform t)),
                                 s2)))))"

subsection \<open>The queries\<close>

text \<open>
  \<^verbatim>\<open>targetPosition\<close>, the overload with the \<^verbatim>\<open>lightTime\<close> reference. With coverage on one
  side only, the side without coverage is estimated as seen from the other one, and the
  estimate is multiplied by -1 when that side is the observer.
\<close>

definition targetPosition ::
  "env \<Rightarrow> SpiceManager \<Rightarrow> string \<Rightarrow> string \<Rightarrow> string \<Rightarrow> AberrationCorrection \<Rightarrow> real \<Rightarrow> real
    \<Rightarrow> (error + dvec3 \<times> real) \<times> SpiceManager" where
  "targetPosition E s target observer referenceFrame aberrationCorrection
      ephemerisTime lightTime =
    (if target = [] \<or> observer = [] \<or> referenceFrame = [] then (Inl AssertionFailed, s)
     else case hasSpkCoverage E s target ephemerisTime of
       Inl e \<Rightarrow> (Inl e, s)
     | Inr targetHasCoverage \<Rightarrow>
         (case hasSpkCoverage E s observer ephemerisTime of
            Inl e \<Rightarrow> (Inl e, s)
          | Inr observerHasCoverage \<Rightarrow>
              if \<not> targetHasCoverage \<and> \<not> observerHasCoverage then
                (if useExceptions s then (Inl SpiceException, s)
                 else (Inr (dvec3_splat 0, lightTime), s))
              else if targetHasCoverage \<and> observerHasCoverage then
                (let (position, lt, err) =
                       spkpos_c E target ephemerisTime referenceFrame
                         aberrationCorrection observer
                 in case check_failed (signal err s) of
                      (Inl e, s1) \<Rightarrow> (Inl e, s1)
                    | (Inr _, s1) \<Rightarrow> (Inr (position, lt), s1))
              else if targetHasCoverage then
                (case getEstimatedPosition E s observer target referenceFrame
                        aberrationCorrection ephemerisTime lightTime of
                   (Inl e, s1) \<Rightarrow> (Inl e, s1)
                 | (Inr (pos, lt), s1) \<Rightarrow> (Inr (vec_scale pos (- 1), lt), s1))
              else
                getEstimatedPosition E s target observer referenceFrame
                  aberrationCorrection ephemerisTime lightTime))"

text \<open>
  \<^verbatim>\<open>positionTransformMatrix\<close>, the overload with one time: \<^verbatim>\<open>pxform_c\<close>, the test of the
  flag with \<^verbatim>\<open>throwSpiceError\<close>, then \<^verbatim>\<open>success = !failed_c()\<close>, \<^verbatim>\<open>reset_c()\<close> and the
  estimator when \<^verbatim>\<open>success\<close> is false; the result is transposed.
\<close>

definition positionTransformMatrix ::
  "env \<Rightarrow> SpiceManager \<Rightarrow> string \<Rightarrow> string \<Rightarrow> real \<Rightarrow> (error + dmat3) \<times> SpiceManager" where
  "positionTransformMatrix E s sourceFrame destinationFrame ephemerisTime =
    (if sourceFrame = [] \<or> destinationFrame = [] then (Inl AssertionFailed, s)
     else
       let (result, err) = pxform_c E sourceFrame destinationFrame ephemerisTime in
       case check_failed (signal err s) of
         (Inl e, s1) \<Rightarrow> (Inl e, s1)
       | (Inr _, s1) \<Rightarrow>
           let success = \<not> failed s1;
               s2 = s1\<lparr>failed := False\<rparr>
           in
           if \<not> success then
             (case getEstimatedTransformMatrix E s2 sourceFrame destinationFrame
                     ephemerisTime of
                (Inl e, s3) \<Rightarrow> (Inl e, s3)
              | (Inr estimate, s3) \<Rightarrow> (Inr (transpose_dmat3 estimate), s3))
           else (Inr (transpose_dmat3 result), s2))"

text \<open>
  The result of a position query with its vector multiplied by -1; an error and the
  state are left as they are.
\<close>

definition negated ::
  "(error + dvec3 \<times> real) \<times> SpiceManager \<Rightarrow> (error + dvec3 \<times> real) \<times> SpiceManager" where
  "negated r =
    (case r of
       (Inl e, s) \<Rightarrow> (Inl e, s)
     | (Inr (pos, lt), s) \<Rightarrow> (Inr (vec_scale pos (- 1), lt), s))"

subsection \<open>What the coverage indexer leaves alone\<close>

text \<open>
  Two states agree on the registry, the exception mode, the calls made to the toolkit
  and the working directory.
\<close>

definition same_registry :: "SpiceManager \<Rightarrow> SpiceManager \<Rightarrow> bool" where
  "same_registry s s' \<longleftrightarrow>
     loadedKernels s' = loadedKernels s \<and> lastAssignedKernel s' = lastAssignedKernel s
     \<and> useExceptions s' = useExceptions s \<and> toolkit_calls s' = toolkit_calls s
     \<and> current_path s' = current_path s"

subsection \<open>A concrete environment and concrete states\<close>

text \<open>
  An environment in which paths are absolute already, every file exists, the toolkit
  rejects the file \<^verbatim>\<open>/kernels/bad.tls\<close>, a position kernel covers body 5 on one window
  from 100 to 200, the body \<^verbatim>\<open>SSB\<close> has id 0, \<^verbatim>\<open>X\<close> has id 5 and \<^verbatim>\<open>Y\<close> has id 7 (as a body and as a frame), the
  position of a target at a time \<open>t\<close> is \<open>(t, 2 t, 0)\<close> with light time \<open>t / 100\<close>,
  and \<^verbatim>\<open>pxform_c\<close> yields a quarter turn about the third axis, except from the frame
  \<^verbatim>\<open>BROKEN\<close> at a time outside the window from 0 to 10, where it signals an error and
  leaves the identity of the caller in the buffer.
\<close>

definition env0 :: env where
  "env0 =
    \<lparr>absPath = (\<lambda>p. p),
     is_regular_file = (\<lambda>p. True),
     is_directory = (\<lambda>p. True),
     parent_path = (\<lambda>p. ''/kernels''),
     extension = (\<lambda>p. if p = ''/kernels/x.bsp'' then ''.bsp'' else ''.tls''),
     furnsh_c = (\<lambda>d p. p = ''/kernels/bad.tls''),
     spkobj_c = (\<lambda>p. ([5], False)),
     spkcov_c = (\<lambda>p obj. ([(100, 200)], False)),
     ckobj_c = (\<lambda>p. ([], False)),
     ckcov_c = (\<lambda>p frame. ([], False)),
     bods2c_c = (\<lambda>b. if b = ''SSB'' then (0, True) else if b = ''X'' then (5, True)
                       else if b = ''Y'' then (7, True) else (0, False)),
     namfrm_c = (\<lambda>f. if f = ''J2000'' then 1 else if f = ''Y'' then 7
                       else if f = ''BROKEN'' then 3 else 0),
     spkpos_c = (\<lambda>targ t ref ab obs. ((t, 2 * t, 0), t / 100, False)),
     pxform_c = (\<lambda>from to t.
       if from = ''BROKEN'' \<and> (t < 0 \<or> 10 < t) then (dmat3_diag 1, True)
       else (((0, 1, 0), (- 1, 0, 0), (0, 0, 1)), False))\<rparr>"

text \<open>The manager before any kernel is loaded, with exception handling on and off.\<close>

definition empty_manager :: "bool \<Rightarrow> SpiceManager" where
  "empty_manager exc =
    \<lparr>loadedKernels = [], lastAssignedKernel = 0,
     spkIntervals = Map.empty, ckIntervals = Map.empty,
     spkCoverageTimes = Map.empty, ckCoverageTimes = Map.empty,
     useExceptions = exc, failed = False, current_path = ''/'', toolkit_calls = []\<rparr>"

text \<open>
  A manager whose position tables hold the window from 100 to 200 for body 5 and whose
  orientation tables hold the window from 0 to 10 for the ids 7000 and 3.
\<close>

definition covered_manager :: "bool \<Rightarrow> SpiceManager" where
  "covered_manager exc =
    (empty_manager exc)
      \<lparr>spkIntervals := [5 \<mapsto> [(100, 200)]],
       spkCoverageTimes := [5 \<mapsto> [100, 200]],
       ckIntervals := [7000 \<mapsto> [(0, 10)], 3 \<mapsto> [(0, 10)]],
       ckCoverageTimes := [7000 \<mapsto> [0, 10], 3 \<mapsto> [0, 10]]\<rparr>"

text \<open>
  The manager after the position kernel \<^verbatim>\<open>/kernels/x.bsp\<close> has been loaded into the
  empty one: one record with handle 1 and count 1, the window of body 5 in the position
  tables, and the call of \<^verbatim>\<open>furnsh_c\<close>.
\<close>

definition loaded_manager :: "bool \<Rightarrow> SpiceManager" where
  "loaded_manager exc =
    (empty_manager exc)
      \<lparr>loadedKernels := [\<lparr>path = ''/kernels/x.bsp'', id_handle = 1, refCount = 1\<rparr>],
       lastAssignedKernel := 1,
       spkIntervals := [5 \<mapsto> [(100, 200)]],
       spkCoverageTimes := [5 \<mapsto> [100, 200]],
       toolkit_calls := [Furnsh ''/kernels/x.bsp'']\<rparr>"

text \<open>
  The manager after the text kernel \<^verbatim>\<open>/kernels/a.tls\<close> has been loaded next: a second
  record with handle 2 and count 1, and the second call of \<^verbatim>\<open>furnsh_c\<close>.
\<close>

definition two_manager :: "bool \<Rightarrow> SpiceManager" where
  "two_manager exc =
    (loaded_manager exc)
      \<lparr>loadedKernels :=
         [\<lparr>path = ''/kernels/x.bsp'', id_handle = 1, refCount = 1\<rparr>,
          \<lparr>path = ''/kernels/a.tls'', id_handle = 2, refCount = 1\<rparr>],
       lastAssignedKernel := 2,
       toolkit_calls := [Furnsh ''/kernels/x.bsp'', Furnsh ''/kernels/a.tls'']\<rparr>"

section \<open>Properties\<close>

subsection \<open>Evaluation of the concrete environment and states\<close>

lemma covered_manager_fields [simp]:
  "spkIntervals (covered_manager exc) = [5 \<mapsto> [(100, 200)]]"
  "spkCoverageTimes (covered_manager exc) = [5 \<mapsto> [100, 200]]"
  "ckIntervals (covered_manager exc) = [7000 \<mapsto> [(0, 10)], 3 \<mapsto> [(0, 10)]]"
  "ckCoverageTimes (covered_manager exc) = [7000 \<mapsto> [0, 10], 3 \<mapsto> [0, 10]]"
  "useExceptions (covered_manager exc) = exc"
  "failed (covered_manager exc) = False"
  "loadedKernels (covered_manager exc) = []"
  by (simp_all add: covered_manager_def empty_manager_def)

lemma naifId_env0 [simp]:
  "naifId env0 (covered_manager exc) ''X'' = Inr 5"
  "naifId env0 (covered_manager exc) ''Y'' = Inr 7"
  by (simp_all add: naifId_def env0_def)

lemma loaded_manager_fields [simp]:
  "spkIntervals (loaded_manager exc) = [5 \<mapsto> [(100, 200)]]"
  "spkCoverageTimes (loaded_manager exc) = [5 \<mapsto> [100, 200]]"
  "useExceptions (loaded_manager exc) = exc"
  "failed (loaded_manager exc) = False"
  by (simp_all add: loaded_manager_def empty_manager_def)

text \<open>Loading the position kernel into the empty manager, evaluated.\<close>

lemma load_x: "loadKernel env0 (empty_manager exc) ''/kernels/x.bsp'' = (Inr 1, loaded_manager exc)"
  by (simp add: loadKernel_def env0_def empty_manager_def loaded_manager_def check_failed_def
      signal_def indexCoverage_def findSpkCoverage_def throwSpiceError_def at_or_empty_def Let_def)

text \<open>Loading the text kernel next, evaluated.\<close>

lemma load_a:
  "loadKernel env0 (loaded_manager exc) ''/kernels/a.tls'' = (Inr 2, two_manager exc)"
  by (simp add: loadKernel_def env0_def empty_manager_def loaded_manager_def two_manager_def
      check_failed_def signal_def indexCoverage_def throwSpiceError_def Let_def)

subsection \<open>Aberration corrections\<close>

text \<open>
  Claim C9. For each of the nine canonical short codes, the constructor from the string
  succeeds, converting the value back gives the code again, and the table holds exactly
  one pair of type and direction for the code.
\<close>

theorem aberration_correction_round_trip:
  "c \<in> set canonical_codes \<Longrightarrow>
     \<exists>t d. AberrationCorrection_of_string c = Inr (AberrationCorrection t d)
       \<and> AberrationCorrection_to_string (AberrationCorrection t d) = c
       \<and> (\<forall>t' d'. (c, t', d') \<in> set Mapping \<longrightarrow> t' = t \<and> d' = d)"
  unfolding canonical_codes_def AberrationCorrection_of_string_def Mapping_def
  by auto

theorem aberration_correction_round_trip_witness:
  "''XLT+S'' \<in> set canonical_codes
   \<and> (\<exists>t d. AberrationCorrection_of_string ''XLT+S'' = Inr (AberrationCorrection t d)
         \<and> AberrationCorrection_to_string (AberrationCorrection t d) = ''XLT+S''
         \<and> (\<forall>t' d'. (''XLT+S'', t', d') \<in> set Mapping \<longrightarrow> t' = t \<and> d' = d))"
proof -
  have h: "''XLT+S'' \<in> set canonical_codes"
    by (simp add: canonical_codes_def)
  from aberration_correction_round_trip [OF h] h show ?thesis
    by blast
qed

subsection \<open>Coverage queries\<close>

lemma inside_some_iff: "inside_some xs et \<longleftrightarrow> (\<exists>(b, e) \<in> set xs. b < et \<and> et < e)"
  by (induction xs) auto

lemma inside_some_removeAll: "inside_some (removeAll (b, e) xs) b = inside_some xs b"
  by (induction xs) auto

text \<open>
  The inner loop of the position indexer appends the intervals of a window to those
  already recorded for the id, in order and as they are (the flag being down).
\<close>

lemma at_or_empty_upd: "at_or_empty (m(k \<mapsto> v)) k = v"
  by (simp add: at_or_empty_def)

lemma spkRecordIntervals_appends:
  "\<not> failed s \<Longrightarrow>
     fst (spkRecordIntervals obj cover s) = Inr ()
     \<and> \<not> failed (snd (spkRecordIntervals obj cover s))
     \<and> spkIntervals (snd (spkRecordIntervals obj cover s))
         = (if cover = [] then spkIntervals s
            else (spkIntervals s)(obj \<mapsto> at_or_empty (spkIntervals s) obj @ cover))"
proof (induction cover arbitrary: s)
  case Nil
  then show ?case by simp
next
  case (Cons iv rest)
  obtain b e where iv: "iv = (b, e)" by (cases iv)
  let ?s' = "s\<lparr>spkCoverageTimes := (spkCoverageTimes s)
                   (obj \<mapsto> set_insert b (set_insert e (at_or_empty (spkCoverageTimes s) obj))),
                 spkIntervals := (spkIntervals s)
                   (obj \<mapsto> at_or_empty (spkIntervals s) obj @ [(b, e)])\<rparr>"
  from Cons.prems have c: "check_failed s = (Inr (), s)"
    by (simp add: check_failed_def)
  from Cons.prems have f: "\<not> failed ?s'" by simp
  have step: "spkRecordIntervals obj (iv # rest) s = spkRecordIntervals obj rest ?s'"
    using iv c by simp
  have upd: "spkIntervals ?s' = (spkIntervals s)(obj \<mapsto> at_or_empty (spkIntervals s) obj @ [(b, e)])"
    by simp
  have old: "at_or_empty (spkIntervals ?s') obj = at_or_empty (spkIntervals s) obj @ [(b, e)]"
    by (simp add: at_or_empty_def)
  note ih = Cons.IH [OF f, unfolded old upd]
  show ?case
    unfolding step using ih iv by (cases "rest = []") (simp_all add: at_or_empty_upd)
qed

text \<open>
  Claim C6. For a target whose name resolves to the id \<open>X\<close>, \<^verbatim>\<open>hasSpkCoverage\<close> answers
  true exactly when \<open>X\<close> is 0 (the solar system barycenter) or the time lies strictly
  inside at least one interval recorded for \<open>X\<close>; the intervals are tested one by one,
  whether they overlap or not. When \<open>X\<close> is not 0 and its table holds exactly the
  interval from 100 to 200, the answer is true for every time strictly between 100 and
  200 and false at 50 and at 250. The intervals of a further kernel are appended to the
  recorded ones, not merged with them.
\<close>

theorem hasSpkCoverage_inside:
  "naifId E s target = Inr X \<Longrightarrow>
     hasSpkCoverage E s target t
       = Inr (X = 0 \<or> (\<exists>(b, e) \<in> set (at_or_empty (spkIntervals s) X). b < t \<and> t < e))
     \<and> (X \<noteq> 0 \<and> spkIntervals s X = Some [(100, 200)] \<longrightarrow>
          hasSpkCoverage E s target t = Inr (100 < t \<and> t < 200)
          \<and> hasSpkCoverage E s target 50 = Inr False
          \<and> hasSpkCoverage E s target 250 = Inr False)
     \<and> (\<forall>cover. \<not> failed s \<and> cover \<noteq> [] \<longrightarrow>
          spkIntervals (snd (spkRecordIntervals X cover s)) X
            = Some (at_or_empty (spkIntervals s) X @ cover))"
proof -
  assume n: "naifId E s target = Inr X"
  have query: "hasSpkCoverage E s target t
       = Inr (X = 0 \<or> (\<exists>(b, e) \<in> set (at_or_empty (spkIntervals s) X). b < t \<and> t < e))
     \<and> (X \<noteq> 0 \<and> spkIntervals s X = Some [(100, 200)] \<longrightarrow>
          hasSpkCoverage E s target t = Inr (100 < t \<and> t < 200)
          \<and> hasSpkCoverage E s target 50 = Inr False
          \<and> hasSpkCoverage E s target 250 = Inr False)"
    using n
    by (auto simp: hasSpkCoverage_def naifId_def at_or_empty_def inside_some_iff
        split: if_splits option.splits prod.splits)
  have index: "spkIntervals (snd (spkRecordIntervals X cover s)) X
            = Some (at_or_empty (spkIntervals s) X @ cover)"
    if "\<not> failed s" "cover \<noteq> []" for cover
    using spkRecordIntervals_appends [OF that(1), of X cover] that(2) by simp
  from query index show ?thesis by blast
qed

theorem hasSpkCoverage_inside_witness:
  "snd (loadKernel env0 (empty_manager True) ''/kernels/x.bsp'') = loaded_manager True
   \<and> naifId env0 (loaded_manager True) ''X'' = Inr 5
   \<and> spkIntervals (loaded_manager True) 5 = Some [(100, 200)]
   \<and> hasSpkCoverage env0 (loaded_manager True) ''X'' 150 = Inr True
   \<and> hasSpkCoverage env0 (loaded_manager True) ''X'' 50 = Inr False
   \<and> hasSpkCoverage env0 (loaded_manager True) ''X'' 250 = Inr False"
proof -
  have h: "naifId env0 (loaded_manager True) ''X'' = Inr 5"
    by (simp add: naifId_def env0_def)
  have i: "(5::int) \<noteq> 0 \<and> spkIntervals (loaded_manager True) 5 = Some [(100, 200)]"
    by simp
  from hasSpkCoverage_inside [OF h, of 150] h i load_x [of True] show ?thesis
    by (simp add: at_or_empty_def)
qed

text \<open>
  Claim C5, as the code has it. The test of an interval is strict on both bounds, so an
  interval never covers its own lower bound: for an id other than 0 with a recorded
  interval \<open>(b, e)\<close>, the answer of \<^verbatim>\<open>hasSpkCoverage\<close> at the time \<open>b\<close> is the answer
  the other recorded intervals give, and it is false when \<open>(b, e)\<close> is the only one.
\<close>

theorem hasSpkCoverage_lower_bound:
  "naifId E s target = Inr X \<Longrightarrow> X \<noteq> 0 \<Longrightarrow> spkIntervals s X = Some iv \<Longrightarrow>
   (b, e) \<in> set iv \<Longrightarrow>
     hasSpkCoverage E s target b = Inr (inside_some (removeAll (b, e) iv) b)
     \<and> (set iv = {(b, e)} \<longrightarrow> hasSpkCoverage E s target b = Inr False)"
  by (auto simp: hasSpkCoverage_def naifId_def inside_some_removeAll inside_some_iff
      split: if_splits option.splits prod.splits)

theorem hasSpkCoverage_lower_bound_witness:
  "naifId env0 (covered_manager True) ''X'' = Inr 5
   \<and> spkIntervals (covered_manager True) 5 = Some [(100, 200)]
   \<and> hasSpkCoverage env0 (covered_manager True) ''X'' 100 = Inr (inside_some [] 100)"
proof -
  have h: "naifId env0 (covered_manager True) ''X'' = Inr 5"
    by simp
  have i: "spkIntervals (covered_manager True) 5 = Some [(100, 200)]"
    by simp
  from hasSpkCoverage_lower_bound [OF h _ i, of 100 200] h i show ?thesis
    by simp
qed

text \<open>
  The claim as the spec states it fails: body 5 has the recorded interval from 100 to
  200, and the time 100, its lower bound, is reported as not covered.
\<close>

theorem hasSpkCoverage_lower_bound_counterexample:
  "naifId env0 (covered_manager True) ''X'' = Inr 5
   \<and> spkIntervals (covered_manager True) 5 = Some [(100, 200)]
   \<and> hasSpkCoverage env0 (covered_manager True) ''X'' 100 = Inr False"
  by (simp add: hasSpkCoverage_def)

text \<open>
  Claim C10. \<^verbatim>\<open>ckCoverage\<close> resolves the name with \<^verbatim>\<open>naifId\<close> (its answer does not
  depend on the frame lookup \<^verbatim>\<open>namfrm_c\<close>): an entry of the orientation table under that
  id is returned; without one, the entry under the id times 1000 is returned when there
  is one, and the empty list when there is none (the product within the range of an
  \<^verbatim>\<open>int\<close>). \<^verbatim>\<open>hasCkCoverage\<close> resolves the name with \<^verbatim>\<open>frameId\<close> (its answer does not
  depend on the body lookup \<^verbatim>\<open>bods2c_c\<close>) and tests the intervals under that id only.
\<close>

theorem ckCoverage_lookup:
  "naifId E s target = Inr X \<Longrightarrow>
     (\<forall>v. ckIntervals s X = Some v \<longrightarrow> ckCoverage E s target = Inr v)
     \<and> (ckIntervals s X = None \<and> - 2147483648 \<le> X * 1000 \<and> X * 1000 \<le> 2147483647 \<longrightarrow>
          ckCoverage E s target = Inr (at_or_empty (ckIntervals s) (X * 1000)))
     \<and> ckCoverage (E\<lparr>namfrm_c := g\<rparr>) s target = ckCoverage E s target
     \<and> (\<forall>F. frameId E s frame = Inr F \<longrightarrow>
          hasCkCoverage E s frame et = Inr (inside_some (at_or_empty (ckIntervals s) F) et))
     \<and> hasCkCoverage (E\<lparr>bods2c_c := h\<rparr>) s frame et = hasCkCoverage E s frame et"
  by (auto simp: ckCoverage_def hasCkCoverage_def naifId_def frameId_def times_1000_def
      at_or_empty_def split: if_splits option.splits prod.splits sum.splits)

theorem ckCoverage_lookup_witness:
  "naifId env0 (covered_manager True) ''Y'' = Inr 7
   \<and> frameId env0 (covered_manager True) ''Y'' = Inr 7
   \<and> ckIntervals (covered_manager True) 7 = None
   \<and> ckCoverage env0 (covered_manager True) ''Y'' = Inr [(0, 10)]
   \<and> hasCkCoverage env0 (covered_manager True) ''Y'' 5 = Inr False"
proof -
  have h: "naifId env0 (covered_manager True) ''Y'' = Inr 7"
    by simp
  have f: "frameId env0 (covered_manager True) ''Y'' = Inr 7"
    by (simp add: frameId_def env0_def)
  have i: "ckIntervals (covered_manager True) 7 = None"
    "ckIntervals (covered_manager True) 7000 = Some [(0, 10)]"
    by simp_all
  from ckCoverage_lookup [OF h, where frame = "''Y''" and et = 5] h f i show ?thesis
    by (simp add: at_or_empty_def)
qed

subsection \<open>The kernel registry\<close>

lemma find_if_end: "find_if P xs = length xs \<longleftrightarrow> (\<forall>x \<in> set xs. \<not> P x)"
proof (induction xs)
  case Nil
  show ?case by simp
next
  case (Cons x xs)
  then show ?case by auto
qed


lemma same_registry_refl [simp]: "same_registry s s"
  by (simp add: same_registry_def)

lemma same_registry_trans: "same_registry a b \<Longrightarrow> same_registry b c \<Longrightarrow> same_registry a c"
  by (simp add: same_registry_def)

lemma check_failed_registry: "same_registry s (snd (check_failed s))"
  by (simp add: same_registry_def check_failed_def throwSpiceError_def)

lemma signal_registry: "same_registry s (signal err s)"
  by (simp add: same_registry_def signal_def)

lemma spkRecordIntervals_registry: "same_registry s (snd (spkRecordIntervals obj cover s))"
proof (induction cover arbitrary: s)
  case Nil
  show ?case by simp
next
  case (Cons iv rest)
  obtain b e where iv: "iv = (b, e)" by (cases iv)
  obtain r s1 where c: "check_failed s = (r, s1)" by (cases "check_failed s")
  with check_failed_registry [of s] have s1: "same_registry s s1" by simp
  show ?case
  proof (cases r)
    case (Inl err)
    with iv c s1 show ?thesis by simp
  next
    case (Inr u)
    let ?s2 = "s1\<lparr>spkCoverageTimes := (spkCoverageTimes s1)
                   (obj \<mapsto> set_insert b (set_insert e (at_or_empty (spkCoverageTimes s1) obj))),
                 spkIntervals := (spkIntervals s1)
                   (obj \<mapsto> at_or_empty (spkIntervals s1) obj @ [(b, e)])\<rparr>"
    have "same_registry s ?s2" using s1 by (simp add: same_registry_def)
    from same_registry_trans [OF this Cons.IH [of ?s2]] iv c Inr show ?thesis by simp
  qed
qed

lemma spkRecordObjects_registry: "same_registry s (snd (spkRecordObjects E p ids s))"
proof (induction ids arbitrary: s)
  case Nil
  show ?case by simp
next
  case (Cons obj rest)
  obtain cover err where cv: "spkcov_c E p obj = (cover, err)" by (cases "spkcov_c E p obj")
  obtain r s1 where c: "check_failed (signal err s) = (r, s1)"
    by (cases "check_failed (signal err s)")
  from same_registry_trans [OF signal_registry check_failed_registry, of s err] c
  have s1: "same_registry s s1" by simp
  show ?case
  proof (cases r)
    case (Inl e)
    with cv c s1 show ?thesis by simp
  next
    case (Inr u)
    obtain r2 s2 where c2: "spkRecordIntervals obj cover s1 = (r2, s2)"
      by (cases "spkRecordIntervals obj cover s1")
    with spkRecordIntervals_registry [of s1 obj cover] s1
    have s2: "same_registry s s2" by (auto intro: same_registry_trans)
    show ?thesis
    proof (cases r2)
      case (Inl e)
      with cv c Inr c2 s2 show ?thesis by simp
    next
      case (Inr u2)
      from same_registry_trans [OF s2 Cons.IH [of s2]] cv c \<open>r = Inr u\<close> c2 Inr
      show ?thesis by simp
    qed
  qed
qed

lemma findSpkCoverage_registry: "same_registry s (snd (findSpkCoverage E p s))"
proof -
  obtain ids err where o: "spkobj_c E p = (ids, err)" by (cases "spkobj_c E p")
  obtain r s1 where c: "check_failed (signal err s) = (r, s1)"
    by (cases "check_failed (signal err s)")
  from same_registry_trans [OF signal_registry check_failed_registry, of s err] c
  have s1: "same_registry s s1" by simp
  from same_registry_trans [OF s1 spkRecordObjects_registry [of s1 E p ids]] s1 o c
  show ?thesis
    by (cases r) (simp_all add: findSpkCoverage_def)
qed

lemma ckRecordIntervals_registry: "same_registry s (snd (ckRecordIntervals obj cover s))"
proof (induction cover arbitrary: s)
  case Nil
  show ?case by simp
next
  case (Cons iv rest)
  obtain b e where iv: "iv = (b, e)" by (cases iv)
  obtain r s1 where c: "check_failed s = (r, s1)" by (cases "check_failed s")
  with check_failed_registry [of s] have s1: "same_registry s s1" by simp
  show ?case
  proof (cases r)
    case (Inl err)
    with iv c s1 show ?thesis by simp
  next
    case (Inr u)
    let ?s2 = "s1\<lparr>ckCoverageTimes := (ckCoverageTimes s1)
                   (obj \<mapsto> set_insert b (set_insert e (at_or_empty (ckCoverageTimes s1) obj))),
                 ckIntervals := (ckIntervals s1)
                   (obj \<mapsto> at_or_empty (ckIntervals s1) obj @ [(b, e)])\<rparr>"
    have "same_registry s ?s2" using s1 by (simp add: same_registry_def)
    from same_registry_trans [OF this Cons.IH [of ?s2]] iv c Inr show ?thesis by simp
  qed
qed

lemma ckRecordObjects_registry: "same_registry s (snd (ckRecordObjects E p ids s))"
proof (induction ids arbitrary: s)
  case Nil
  show ?case by simp
next
  case (Cons obj rest)
  obtain cover err where cv: "ckcov_c E p obj = (cover, err)" by (cases "ckcov_c E p obj")
  obtain r s1 where c: "check_failed (signal err s) = (r, s1)"
    by (cases "check_failed (signal err s)")
  from same_registry_trans [OF signal_registry check_failed_registry, of s err] c
  have s1: "same_registry s s1" by simp
  show ?case
  proof (cases r)
    case (Inl e)
    with cv c s1 show ?thesis by simp
  next
    case (Inr u)
    obtain r2 s2 where c2: "ckRecordIntervals obj cover s1 = (r2, s2)"
      by (cases "ckRecordIntervals obj cover s1")
    with ckRecordIntervals_registry [of s1 obj cover] s1
    have s2: "same_registry s s2" by (auto intro: same_registry_trans)
    show ?thesis
    proof (cases r2)
      case (Inl e)
      with cv c Inr c2 s2 show ?thesis by simp
    next
      case (Inr u2)
      from same_registry_trans [OF s2 Cons.IH [of s2]] cv c \<open>r = Inr u\<close> c2 Inr
      show ?thesis by simp
    qed
  qed
qed

lemma findCkCoverage_registry: "same_registry s (snd (findCkCoverage E p s))"
proof -
  obtain ids err where o: "ckobj_c E p = (ids, err)" by (cases "ckobj_c E p")
  obtain r s1 where c: "check_failed (signal err s) = (r, s1)"
    by (cases "check_failed (signal err s)")
  from same_registry_trans [OF signal_registry check_failed_registry, of s err] c
  have s1: "same_registry s s1" by simp
  from same_registry_trans [OF s1 ckRecordObjects_registry [of s1 E p ids]] s1 o c
  show ?thesis
    by (cases r) (simp_all add: findCkCoverage_def)
qed


lemma indexCoverage_registry: "same_registry s (snd (indexCoverage E p s))"
  by (simp add: indexCoverage_def Let_def findCkCoverage_registry findSpkCoverage_registry)

lemma find_if_mid:
  "\<forall>x \<in> set pre. \<not> P x \<Longrightarrow> P r \<Longrightarrow> find_if P (pre @ r # post) = length pre"
  by (induction pre) auto

lemma erase_mid: "erase (length pre) (pre @ r # post) = pre @ post"
  by (simp add: erase_def)

lemma loadKernel_first:
  assumes L: "loadKernel E s f = (Inr h, s1)"
    and N: "\<forall>info \<in> set (loadedKernels s). path info \<noteq> absPath E f"
  shows "h = lastAssignedKernel s + 1 \<and> h \<noteq> 0 \<and> lastAssignedKernel s1 = h
    \<and> loadedKernels s1
        = loadedKernels s @ [\<lparr>path = absPath E f, id_handle = h, refCount = 1\<rparr>]
    \<and> toolkit_calls s1 = toolkit_calls s @ [Furnsh (absPath E f)]"
proof -
  let ?p = "absPath E f"
  let ?s3 = "(signal (furnsh_c E (parent_path E ?p) ?p)
               (s\<lparr>current_path := parent_path E ?p,
                  toolkit_calls := toolkit_calls s @ [Furnsh ?p]\<rparr>))
             \<lparr>current_path := current_path s\<rparr>"
  from N have F: "find_if (\<lambda>info. path info = ?p) (loadedKernels s) = length (loadedKernels s)"
    by (simp add: find_if_end)
  have a: "f \<noteq> [] \<and> is_regular_file E f \<and> is_directory E (parent_path E f)"
    using L by (auto simp: loadKernel_def split: if_splits)
  obtain r4 s4 where c4: "check_failed ?s3 = (r4, s4)" by (cases "check_failed ?s3")
  obtain r5 s5 where c5: "indexCoverage E ?p s4 = (r5, s5)"
    by (cases "indexCoverage E ?p s4")
  have k3: "loadedKernels ?s3 = loadedKernels s \<and> lastAssignedKernel ?s3 = lastAssignedKernel s
      \<and> toolkit_calls ?s3 = toolkit_calls s @ [Furnsh ?p]"
    by (simp add: signal_def)
  from check_failed_registry [of ?s3] c4 k3
  have k4: "loadedKernels s4 = loadedKernels s \<and> lastAssignedKernel s4 = lastAssignedKernel s
      \<and> toolkit_calls s4 = toolkit_calls s @ [Furnsh ?p]"
    by (simp add: same_registry_def)
  from indexCoverage_registry [of s4 E ?p] c5 k4
  have k5: "loadedKernels s5 = loadedKernels s \<and> lastAssignedKernel s5 = lastAssignedKernel s
      \<and> toolkit_calls s5 = toolkit_calls s @ [Furnsh ?p]"
    by (simp add: same_registry_def)
  from L F a c4 c5 k5 show ?thesis
    by (auto simp: loadKernel_def Let_def split: if_splits sum.splits)
qed

lemma loadKernel_again:
  assumes files: "f \<noteq> []" "is_regular_file E f" "is_directory E (parent_path E f)"
    and reg: "loadedKernels s = pre @ r # post"
    and p: "path r = absPath E f"
    and first: "\<forall>info \<in> set pre. path info \<noteq> absPath E f"
  shows "loadKernel E s f
    = (Inr (id_handle r), s\<lparr>loadedKernels := pre @ r\<lparr>refCount := refCount r + 1\<rparr> # post\<rparr>)"
proof -
  have i: "find_if (\<lambda>info. path info = absPath E f) (pre @ r # post) = length pre"
    using first p by (intro find_if_mid) simp_all
  show ?thesis
    using files i by (simp add: loadKernel_def Let_def reg)
qed

lemma unload_restores:
  assumes reg: "loadedKernels s = pre @ r # post" and one: "refCount r = 1"
  shows "s\<lparr>loadedKernels := pre @ r\<lparr>refCount := 1\<rparr> # post\<rparr> = s"
proof -
  from one have "r\<lparr>refCount := 1\<rparr> = r" by (cases r) simp
  with reg [symmetric] show ?thesis by simp
qed

lemma unloadKernel_twice:
  assumes reg: "loadedKernels s = pre @ r # post"
    and one: "refCount r = 1"
    and first: "\<forall>info \<in> set pre. id_handle info \<noteq> id_handle r"
    and valid: "id_handle r \<noteq> 0" "id_handle r \<le> lastAssignedKernel s"
  shows "unloadKernel (s\<lparr>loadedKernels := pre @ r\<lparr>refCount := 2\<rparr> # post\<rparr>) (id_handle r)
        = (Inr (), s)"
    and "unloadKernel s (id_handle r)
        = (Inr (), s\<lparr>toolkit_calls := toolkit_calls s @ [Unload (path r)],
                     loadedKernels := pre @ post\<rparr>)"
proof -
  have i: "find_if (\<lambda>info. id_handle info = id_handle r) (pre @ r' # post) = length pre"
    if "id_handle r' = id_handle r" for r'
    using first that by (intro find_if_mid) simp_all
  show "unloadKernel (s\<lparr>loadedKernels := pre @ r\<lparr>refCount := 2\<rparr> # post\<rparr>) (id_handle r)
        = (Inr (), s)"
    using valid i [of "r\<lparr>refCount := 2\<rparr>"] unload_restores [OF reg one]
    by (simp add: unloadKernel_def Let_def)
  show "unloadKernel s (id_handle r)
        = (Inr (), s\<lparr>toolkit_calls := toolkit_calls s @ [Unload (path r)],
                     loadedKernels := pre @ post\<rparr>)"
    using valid i [of r] one
    by (simp add: unloadKernel_def Let_def reg erase_mid)
qed

lemma unloadKernel_path_twice:
  assumes files: "f \<noteq> []"
    and reg: "loadedKernels s = pre @ r # post"
    and p: "path r = absPath E f"
    and one: "refCount r = 1"
    and first: "\<forall>info \<in> set pre. path info \<noteq> absPath E f"
  shows "unloadKernel_path E (s\<lparr>loadedKernels := pre @ r\<lparr>refCount := 2\<rparr> # post\<rparr>) f
        = (Inr (), s)"
    and "unloadKernel_path E s f
        = (Inr (), s\<lparr>toolkit_calls := toolkit_calls s @ [Unload (absPath E f)],
                     loadedKernels := pre @ post\<rparr>)"
proof -
  have i: "find_if (\<lambda>info. path info = absPath E f) (pre @ r' # post) = length pre"
    if "path r' = absPath E f" for r'
    using first that by (intro find_if_mid) simp_all
  show "unloadKernel_path E (s\<lparr>loadedKernels := pre @ r\<lparr>refCount := 2\<rparr> # post\<rparr>) f
        = (Inr (), s)"
    using files i [of "r\<lparr>refCount := 2\<rparr>"] p unload_restores [OF reg one]
    by (simp add: unloadKernel_path_def Let_def)
  show "unloadKernel_path E s f
        = (Inr (), s\<lparr>toolkit_calls := toolkit_calls s @ [Unload (absPath E f)],
                     loadedKernels := pre @ post\<rparr>)"
    using files i [of r] p one
    by (simp add: unloadKernel_path_def Let_def reg erase_mid)
qed

text \<open>
  Claim C7, for a file the assertions of \<^verbatim>\<open>loadKernel\<close> accept.
  \<^item> A first load, of a path no record of the registry holds, appends one record with
    count 1 under the next handle, after one call of \<^verbatim>\<open>furnsh_c\<close>.
  \<^item> A load of a path that is registered already, wherever its record stands in the
    registry, returns the handle of that record and changes nothing but its count, which
    goes up by one: no record is added, no handle is assigned and no call is made to the
    toolkit.
  \<^item> When that record had the count 1 (and its handle is an assigned one that no earlier
    record holds), the count is 2 after the second load; the first unload, by handle or
    by path, only brings it back to 1, which gives the state before the second load; the
    unload of that state removes the record and calls \<^verbatim>\<open>unload_c\<close> for its path.
\<close>

theorem loadKernel_twice:
  assumes files: "f \<noteq> []" "is_regular_file E f" "is_directory E (parent_path E f)"
  shows
    "(\<forall>s0 h s1.
        (\<forall>info \<in> set (loadedKernels s0). path info \<noteq> absPath E f)
        \<and> loadKernel E s0 f = (Inr h, s1) \<longrightarrow>
          h = lastAssignedKernel s0 + 1 \<and> h \<noteq> 0 \<and> lastAssignedKernel s1 = h
          \<and> loadedKernels s1
              = loadedKernels s0 @ [\<lparr>path = absPath E f, id_handle = h, refCount = 1\<rparr>]
          \<and> toolkit_calls s1 = toolkit_calls s0 @ [Furnsh (absPath E f)])
     \<and> (\<forall>s pre r post.
          loadedKernels s = pre @ r # post \<and> path r = absPath E f
          \<and> (\<forall>info \<in> set pre. path info \<noteq> absPath E f) \<longrightarrow>
            loadKernel E s f
              = (Inr (id_handle r),
                 s\<lparr>loadedKernels := pre @ r\<lparr>refCount := refCount r + 1\<rparr> # post\<rparr>))
     \<and> (\<forall>s pre r post.
          loadedKernels s = pre @ r # post \<and> path r = absPath E f \<and> refCount r = 1
          \<and> (\<forall>info \<in> set pre. path info \<noteq> absPath E f \<and> id_handle info \<noteq> id_handle r)
          \<and> id_handle r \<noteq> 0 \<and> id_handle r \<le> lastAssignedKernel s \<longrightarrow>
            loadKernel E s f
              = (Inr (id_handle r), s\<lparr>loadedKernels := pre @ r\<lparr>refCount := 2\<rparr> # post\<rparr>)
            \<and> unloadKernel (s\<lparr>loadedKernels := pre @ r\<lparr>refCount := 2\<rparr> # post\<rparr>)
                 (id_handle r) = (Inr (), s)
            \<and> unloadKernel s (id_handle r)
                = (Inr (), s\<lparr>toolkit_calls := toolkit_calls s @ [Unload (absPath E f)],
                             loadedKernels := pre @ post\<rparr>)
            \<and> unloadKernel_path E (s\<lparr>loadedKernels := pre @ r\<lparr>refCount := 2\<rparr> # post\<rparr>) f
                = (Inr (), s)
            \<and> unloadKernel_path E s f
                = (Inr (), s\<lparr>toolkit_calls := toolkit_calls s @ [Unload (absPath E f)],
                             loadedKernels := pre @ post\<rparr>))"
proof (intro conjI allI impI)
  fix s0 h s1
  assume a: "(\<forall>info \<in> set (loadedKernels s0). path info \<noteq> absPath E f)
        \<and> loadKernel E s0 f = (Inr h, s1)"
  from loadKernel_first [of E s0 f h s1] a
  show "h = lastAssignedKernel s0 + 1" "h \<noteq> 0" "lastAssignedKernel s1 = h"
    "loadedKernels s1
       = loadedKernels s0 @ [\<lparr>path = absPath E f, id_handle = h, refCount = 1\<rparr>]"
    "toolkit_calls s1 = toolkit_calls s0 @ [Furnsh (absPath E f)]"
    by blast+
next
  fix s :: SpiceManager and pre r post
  assume a: "loadedKernels s = pre @ r # post \<and> path r = absPath E f
          \<and> (\<forall>info \<in> set pre. path info \<noteq> absPath E f)"
  then show "loadKernel E s f
     = (Inr (id_handle r), s\<lparr>loadedKernels := pre @ r\<lparr>refCount := refCount r + 1\<rparr> # post\<rparr>)"
    using loadKernel_again [OF files, of s pre r post] by blast
next
  fix s :: SpiceManager and pre r post
  assume a: "loadedKernels s = pre @ r # post \<and> path r = absPath E f \<and> refCount r = 1
          \<and> (\<forall>info \<in> set pre. path info \<noteq> absPath E f \<and> id_handle info \<noteq> id_handle r)
          \<and> id_handle r \<noteq> 0 \<and> id_handle r \<le> lastAssignedKernel s"
  then have reg: "loadedKernels s = pre @ r # post" and p: "path r = absPath E f"
    and one: "refCount r = 1"
    and fp: "\<forall>info \<in> set pre. path info \<noteq> absPath E f"
    and fh: "\<forall>info \<in> set pre. id_handle info \<noteq> id_handle r"
    and valid: "id_handle r \<noteq> 0" "id_handle r \<le> lastAssignedKernel s"
    by blast+
  show "loadKernel E s f
     = (Inr (id_handle r), s\<lparr>loadedKernels := pre @ r\<lparr>refCount := 2\<rparr> # post\<rparr>)"
    using loadKernel_again [OF files reg p fp] one by simp
  show "unloadKernel (s\<lparr>loadedKernels := pre @ r\<lparr>refCount := 2\<rparr> # post\<rparr>) (id_handle r)
     = (Inr (), s)"
    by (rule unloadKernel_twice(1) [OF reg one fh valid])
  show "unloadKernel s (id_handle r)
     = (Inr (), s\<lparr>toolkit_calls := toolkit_calls s @ [Unload (absPath E f)],
                  loadedKernels := pre @ post\<rparr>)"
    using unloadKernel_twice(2) [OF reg one fh valid] p by simp
  show "unloadKernel_path E (s\<lparr>loadedKernels := pre @ r\<lparr>refCount := 2\<rparr> # post\<rparr>) f
     = (Inr (), s)"
    by (rule unloadKernel_path_twice(1) [OF files(1) reg p one fp])
  show "unloadKernel_path E s f
     = (Inr (), s\<lparr>toolkit_calls := toolkit_calls s @ [Unload (absPath E f)],
                  loadedKernels := pre @ post\<rparr>)"
    by (rule unloadKernel_path_twice(2) [OF files(1) reg p one fp])
qed

theorem loadKernel_twice_witness:
  "loadKernel env0 (loaded_manager True) ''/kernels/a.tls'' = (Inr 2, two_manager True)
   \<and> loadedKernels (two_manager True)
        = [\<lparr>path = ''/kernels/x.bsp'', id_handle = 1, refCount = 1\<rparr>,
           \<lparr>path = ''/kernels/a.tls'', id_handle = 2, refCount = 1\<rparr>]
   \<and> loadKernel env0 (two_manager True) ''/kernels/a.tls''
        = (Inr 2, (two_manager True)
             \<lparr>loadedKernels :=
                [\<lparr>path = ''/kernels/x.bsp'', id_handle = 1, refCount = 1\<rparr>,
                 \<lparr>path = ''/kernels/a.tls'', id_handle = 2, refCount = 2\<rparr>]\<rparr>)
   \<and> unloadKernel ((two_manager True)
             \<lparr>loadedKernels :=
                [\<lparr>path = ''/kernels/x.bsp'', id_handle = 1, refCount = 1\<rparr>,
                 \<lparr>path = ''/kernels/a.tls'', id_handle = 2, refCount = 2\<rparr>]\<rparr>) 2
        = (Inr (), two_manager True)
   \<and> unloadKernel (two_manager True) 2
        = (Inr (), (two_manager True)
             \<lparr>toolkit_calls := [Furnsh ''/kernels/x.bsp'', Furnsh ''/kernels/a.tls'',
                                Unload ''/kernels/a.tls''],
              loadedKernels := [\<lparr>path = ''/kernels/x.bsp'', id_handle = 1, refCount = 1\<rparr>]\<rparr>)
   \<and> unloadKernel_path env0 (two_manager True) ''/kernels/a.tls''
        = (Inr (), (two_manager True)
             \<lparr>toolkit_calls := [Furnsh ''/kernels/x.bsp'', Furnsh ''/kernels/a.tls'',
                                Unload ''/kernels/a.tls''],
              loadedKernels := [\<lparr>path = ''/kernels/x.bsp'', id_handle = 1, refCount = 1\<rparr>]\<rparr>)"
proof -
  let ?x = "\<lparr>path = ''/kernels/x.bsp'', id_handle = 1 :: KernelHandle, refCount = 1\<rparr>"
  let ?a = "\<lparr>path = ''/kernels/a.tls'', id_handle = 2 :: KernelHandle, refCount = 1\<rparr>"
  have files: "''/kernels/a.tls'' \<noteq> []" "is_regular_file env0 ''/kernels/a.tls''"
    "is_directory env0 (parent_path env0 ''/kernels/a.tls'')"
    by (simp_all add: env0_def)
  have L: "loadKernel env0 (loaded_manager True) ''/kernels/a.tls'' = (Inr 2, two_manager True)"
    by (rule load_a)
  have e: "absPath env0 ''/kernels/a.tls'' = ''/kernels/a.tls''"
    by (simp add: env0_def)
  have reg: "loadedKernels (two_manager True) = [?x] @ ?a # []"
    and calls: "toolkit_calls (two_manager True)
        = [Furnsh ''/kernels/x.bsp'', Furnsh ''/kernels/a.tls'']"
    and last: "lastAssignedKernel (two_manager True) = 2"
    by (simp_all add: two_manager_def)
  have pre: "loadedKernels (two_manager True) = [?x] @ ?a # []
      \<and> path ?a = absPath env0 ''/kernels/a.tls'' \<and> refCount ?a = 1
      \<and> (\<forall>info \<in> set [?x]. path info \<noteq> absPath env0 ''/kernels/a.tls''
            \<and> id_handle info \<noteq> id_handle ?a)
      \<and> id_handle ?a \<noteq> 0 \<and> id_handle ?a \<le> lastAssignedKernel (two_manager True)"
    by (simp add: reg e last)
  note again = loadKernel_twice [OF files, THEN conjunct2, THEN conjunct2, rule_format, OF pre]
  from again L reg calls e show ?thesis
    by simp
qed

text \<open>
  Claim C4, as the code has it. With exception handling on, a load whose \<^verbatim>\<open>furnsh_c\<close>
  signals an error throws and leaves the registry as it was: the records, the last
  assigned handle and the list of loaded kernels are unchanged (the flag has been
  reset, and the call of \<^verbatim>\<open>furnsh_c\<close> has been made).
\<close>

theorem loadKernel_rejected:
  "useExceptions s \<Longrightarrow> f \<noteq> [] \<Longrightarrow> is_regular_file E f \<Longrightarrow> is_directory E (parent_path E f) \<Longrightarrow>
   find_if (\<lambda>info. path info = absPath E f) (loadedKernels s) = length (loadedKernels s) \<Longrightarrow>
   furnsh_c E (parent_path E (absPath E f)) (absPath E f) \<Longrightarrow>
     loadKernel E s f
       = (Inl SpiceException,
          s\<lparr>failed := False, toolkit_calls := toolkit_calls s @ [Furnsh (absPath E f)]\<rparr>)
     \<and> loadedKernels (snd (loadKernel E s f)) = loadedKernels s
     \<and> lastAssignedKernel (snd (loadKernel E s f)) = lastAssignedKernel s
     \<and> loadedKernels_paths (snd (loadKernel E s f)) = loadedKernels_paths s"
  by (simp add: loadKernel_def Let_def signal_def check_failed_def throwSpiceError_def
      loadedKernels_paths_def)

theorem loadKernel_rejected_witness:
  "useExceptions (empty_manager True)
   \<and> furnsh_c env0 (parent_path env0 (absPath env0 ''/kernels/bad.tls''))
     (absPath env0 ''/kernels/bad.tls'')
   \<and> loadKernel env0 (empty_manager True) ''/kernels/bad.tls''
       = (Inl SpiceException, (empty_manager True)\<lparr>toolkit_calls := [Furnsh ''/kernels/bad.tls'']\<rparr>)
   \<and> loadedKernels_paths (snd (loadKernel env0 (empty_manager True) ''/kernels/bad.tls'')) = []"
proof -
  have h: "useExceptions (empty_manager True)" "''/kernels/bad.tls'' \<noteq> []"
    "is_regular_file env0 ''/kernels/bad.tls''"
    "is_directory env0 (parent_path env0 ''/kernels/bad.tls'')"
    "find_if (\<lambda>info. path info = absPath env0 ''/kernels/bad.tls'')
       (loadedKernels (empty_manager True)) = length (loadedKernels (empty_manager True))"
    "furnsh_c env0 (parent_path env0 (absPath env0 ''/kernels/bad.tls''))
       (absPath env0 ''/kernels/bad.tls'')"
    by (simp_all add: env0_def empty_manager_def)
  have e: "absPath env0 ''/kernels/bad.tls'' = ''/kernels/bad.tls''"
    "toolkit_calls (empty_manager True) = []" "failed (empty_manager True) = False"
    "loadedKernels_paths (empty_manager True) = []"
    by (simp_all add: env0_def empty_manager_def loadedKernels_paths_def)
  from loadKernel_rejected [OF h] h(1,6) show ?thesis
    by (simp add: e empty_manager_def loadedKernels_paths_def)
qed

text \<open>
  The claim as the spec states it, for both modes, fails with exception handling off:
  \<^verbatim>\<open>throwSpiceError\<close> then only resets the flag, \<^verbatim>\<open>loadKernel\<close> goes on, and the
  rejected file gets a record and the handle 1.
\<close>

theorem loadKernel_rejected_counterexample:
  "furnsh_c env0 (parent_path env0 (absPath env0 ''/kernels/bad.tls''))
     (absPath env0 ''/kernels/bad.tls'')
   \<and> loadedKernels_paths (empty_manager False) = []
   \<and> fst (loadKernel env0 (empty_manager False) ''/kernels/bad.tls'') = Inr 1
   \<and> loadedKernels (snd (loadKernel env0 (empty_manager False) ''/kernels/bad.tls''))
       = [\<lparr>path = ''/kernels/bad.tls'', id_handle = 1, refCount = 1\<rparr>]
   \<and> loadedKernels_paths (snd (loadKernel env0 (empty_manager False) ''/kernels/bad.tls''))
       = [''/kernels/bad.tls'']"
  by (simp add: loadKernel_def env0_def empty_manager_def check_failed_def
      signal_def indexCoverage_def throwSpiceError_def Let_def loadedKernels_paths_def)

text \<open>
  Claim C8. Unloading a kernel, by handle or by path, leaves the four coverage tables
  (the intervals and the boundary points, for positions and for orientations) as they
  were, whatever the outcome: also when the record is removed and the kernel is
  unloaded from the toolkit.
\<close>

theorem unloadKernel_coverage:
  "spkIntervals (snd (unloadKernel s kernelId)) = spkIntervals s
   \<and> ckIntervals (snd (unloadKernel s kernelId)) = ckIntervals s
   \<and> spkCoverageTimes (snd (unloadKernel s kernelId)) = spkCoverageTimes s
   \<and> ckCoverageTimes (snd (unloadKernel s kernelId)) = ckCoverageTimes s
   \<and> spkIntervals (snd (unloadKernel_path E s filePath)) = spkIntervals s
   \<and> ckIntervals (snd (unloadKernel_path E s filePath)) = ckIntervals s
   \<and> spkCoverageTimes (snd (unloadKernel_path E s filePath)) = spkCoverageTimes s
   \<and> ckCoverageTimes (snd (unloadKernel_path E s filePath)) = ckCoverageTimes s"
  by (simp add: unloadKernel_def unloadKernel_path_def Let_def)

theorem unloadKernel_coverage_witness:
  "unloadKernel (loaded_manager True) 1
     = (Inr (), (loaded_manager True)
             \<lparr>toolkit_calls := [Furnsh ''/kernels/x.bsp'', Unload ''/kernels/x.bsp''],
              loadedKernels := []\<rparr>)
   \<and> spkIntervals (snd (unloadKernel (loaded_manager True) 1)) 5 = Some [(100, 200)]
   \<and> spkCoverageTimes (snd (unloadKernel (loaded_manager True) 1)) 5 = Some [100, 200]
   \<and> hasSpkCoverage env0 (snd (unloadKernel (loaded_manager True) 1)) ''X'' 150 = Inr True"
proof -
  have u: "unloadKernel (loaded_manager True) 1
     = (Inr (), (loaded_manager True)
             \<lparr>toolkit_calls := [Furnsh ''/kernels/x.bsp'', Unload ''/kernels/x.bsp''],
              loadedKernels := []\<rparr>)"
    by (simp add: unloadKernel_def loaded_manager_def empty_manager_def erase_def)
  have t: "spkIntervals (loaded_manager True) = [5 \<mapsto> [(100, 200)]]"
    "spkCoverageTimes (loaded_manager True) = [5 \<mapsto> [100, 200]]"
    by (simp_all add: loaded_manager_def)
  have n: "naifId env0 s ''X'' = Inr 5" for s
    by (simp add: naifId_def env0_def)
  from unloadKernel_coverage [of "loaded_manager True" 1] u t show ?thesis
    by (simp add: hasSpkCoverage_def n)
qed

subsection \<open>The position estimator\<close>

lemma lower_bound_begin: "xs \<noteq> [] \<Longrightarrow> lower_bound xs t = 0 \<longleftrightarrow> t \<le> hd xs"
  by (cases xs) (auto simp: lower_bound_def)

lemma sorted_le_last: "sorted_wrt (<) xs \<Longrightarrow> x \<in> set xs \<Longrightarrow> x \<le> last xs"
  for xs :: "real list"
proof (induction xs)
  case Nil
  then show ?case by simp
next
  case (Cons y ys)
  show ?case
  proof (cases "ys = []")
    case True
    with Cons.prems show ?thesis by simp
  next
    case False
    then have l: "last ys \<in> set ys" by simp
    show ?thesis
    proof (cases "x = y")
      case True
      from Cons.prems(1) l have "y < last ys" by simp
      with True False show ?thesis by simp
    next
      case neq: False
      with Cons False show ?thesis by simp
    qed
  qed
qed

lemma upper_bound_end:
  "sorted_wrt (<) xs \<Longrightarrow> last xs \<le> t \<Longrightarrow> upper_bound xs t = length xs"
proof -
  assume s: "sorted_wrt (<) xs" and l: "last xs \<le> t"
  have "\<forall>x \<in> set xs. x \<le> t"
    using sorted_le_last [OF s] l by fastforce
  then have "takeWhile (\<lambda>x. x \<le> t) xs = xs"
    by (rule takeWhile_eq_all_conv [THEN iffD2])
  then show ?thesis
    unfolding upper_bound_def by (rule arg_cong)
qed

lemma bounds_between:
  assumes s: "sorted_wrt (<) (pre @ before # after # post)"
    and b: "before < t" and a: "t < after"
  shows "lower_bound (pre @ before # after # post) t = Suc (length pre)"
    and "upper_bound (pre @ before # after # post) t = Suc (length pre)"
proof -
  from s have p: "\<forall>x \<in> set pre. x < before"
    by (auto simp: sorted_wrt_append)
  with b have p1: "\<forall>x \<in> set pre. x < t" and p2: "\<forall>x \<in> set pre. x \<le> t"
    by fastforce+
  from p1 b a show "lower_bound (pre @ before # after # post) t = Suc (length pre)"
    by (simp add: lower_bound_def)
  from p2 b a show "upper_bound (pre @ before # after # post) t = Suc (length pre)"
    by (simp add: upper_bound_def)
qed

text \<open>
  Claim C1. Take a target that is not the barycenter (id 0, which has "no definition in
  kernels" as the code notes, and whose estimate is the zero vector by a special case),
  with the ascending boundary points \<open>cts\<close>, an observer
  and a frame the assertions accept, the failure flag down, and \<^verbatim>\<open>spkpos_c\<close> succeeding
  at the boundary points it is asked for. Then \<^verbatim>\<open>getEstimatedPosition\<close> returns
  \<^item> at a time not after the first boundary point, the position and light time computed
    at the first boundary point;
  \<^item> at a time after the first and not before the last boundary point, those computed
    at the last boundary point;
  \<^item> at a time strictly between two neighbouring boundary points \<open>before\<close> and
    \<open>after\<close>, the blend of the positions and of the light times computed at the two,
    with the weight \<open>(t - before) / (after - before)\<close> on the later one;
  \<^item> for the boundary points 100 and 200: at 50 what is computed at 100, at 250 what is
    computed at 200, and at 150 the blend of the two with weight one half.
\<close>

theorem getEstimatedPosition_boundaries:
  assumes id: "naifId E s target = Inr X" "X \<noteq> 0"
    and args: "observer \<noteq> []" "frame \<noteq> []" "target \<noteq> observer"
    and flag: "\<not> failed s"
    and cov: "spkCoverageTimes s X = Some cts" "sorted_wrt (<) cts"
  shows
    "(\<forall>p l. cts \<noteq> [] \<and> t \<le> hd cts
         \<and> spkpos_c E target (hd cts) frame ab observer = (p, l, False) \<longrightarrow>
       getEstimatedPosition E s target observer frame ab t lt = (Inr (p, l), s))
     \<and> (\<forall>p l. cts \<noteq> [] \<and> hd cts < t \<and> last cts \<le> t
         \<and> spkpos_c E target (last cts) frame ab observer = (p, l, False) \<longrightarrow>
       getEstimatedPosition E s target observer frame ab t lt = (Inr (p, l), s))
     \<and> (\<forall>pre before after post pb lb pa la.
          cts = pre @ before # after # post \<and> before < t \<and> t < after
          \<and> spkpos_c E target before frame ab observer = (pb, lb, False)
          \<and> spkpos_c E target after frame ab observer = (pa, la, False) \<longrightarrow>
          getEstimatedPosition E s target observer frame ab t lt
            = (Inr (vec_add (vec_scale pb (1 - (t - before) / (after - before)))
                      (vec_scale pa ((t - before) / (after - before))),
                    lb * (1 - (t - before) / (after - before))
                      + la * ((t - before) / (after - before))), s))
     \<and> (\<forall>p1 l1 p2 l2. cts = [100, 200]
          \<and> spkpos_c E target 100 frame ab observer = (p1, l1, False)
          \<and> spkpos_c E target 200 frame ab observer = (p2, l2, False) \<longrightarrow>
          getEstimatedPosition E s target observer frame ab 50 lt = (Inr (p1, l1), s)
          \<and> getEstimatedPosition E s target observer frame ab 250 lt = (Inr (p2, l2), s)
          \<and> getEstimatedPosition E s target observer frame ab 150 lt
              = (Inr (vec_add (vec_scale p1 (1 / 2)) (vec_scale p2 (1 / 2)),
                      l1 * (1 / 2) + l2 * (1 / 2)), s))"
proof -
  have tn: "target \<noteq> []"
    using id by (auto simp: naifId_def split: if_splits)
  have sig: "signal False s = s"
    by (simp add: signal_def)
  have same: "check_failed s = (Inr (), s)"
    using flag by (simp add: check_failed_def)
  have first: "getEstimatedPosition E s target observer frame ab u lt = (Inr (p, l), s)"
    if "cts \<noteq> []" "u \<le> hd cts" "spkpos_c E target (hd cts) frame ab observer = (p, l, False)"
    for u p l
    using that id args cov tn sig same
    by (simp add: getEstimatedPosition_def lower_bound_begin)
  have final: "getEstimatedPosition E s target observer frame ab u lt = (Inr (p, l), s)"
    if "cts \<noteq> []" "hd cts < u" "last cts \<le> u"
      "spkpos_c E target (last cts) frame ab observer = (p, l, False)"
    for u p l
    using that id args cov tn sig same
    by (simp add: getEstimatedPosition_def lower_bound_begin upper_bound_end)
  have between: "getEstimatedPosition E s target observer frame ab u lt
            = (Inr (vec_add (vec_scale pb (1 - (u - before) / (after - before)))
                      (vec_scale pa ((u - before) / (after - before))),
                    lb * (1 - (u - before) / (after - before))
                      + la * ((u - before) / (after - before))), s)"
    if "cts = pre @ before # after # post" "before < u" "u < after"
      "spkpos_c E target before frame ab observer = (pb, lb, False)"
      "spkpos_c E target after frame ab observer = (pa, la, False)"
    for u pre before after post pb lb pa la
  proof -
    from cov that(1) have s: "sorted_wrt (<) (pre @ before # after # post)" by simp
    note bds = bounds_between [OF s that(2,3)]
    have nth: "(pre @ before # after # post) ! length pre = before"
      "(pre @ before # after # post) ! Suc (length pre) = after"
      by (simp_all add: nth_append)
    show ?thesis
      using that id args cov tn sig same bds nth
      by (simp add: getEstimatedPosition_def Let_def)
  qed
  have special: "getEstimatedPosition E s target observer frame ab 50 lt = (Inr (p1, l1), s)
          \<and> getEstimatedPosition E s target observer frame ab 250 lt = (Inr (p2, l2), s)
          \<and> getEstimatedPosition E s target observer frame ab 150 lt
              = (Inr (vec_add (vec_scale p1 (1 / 2)) (vec_scale p2 (1 / 2)),
                      l1 * (1 / 2) + l2 * (1 / 2)), s)"
    if "cts = [100, 200]"
      "spkpos_c E target 100 frame ab observer = (p1, l1, False)"
      "spkpos_c E target 200 frame ab observer = (p2, l2, False)"
    for p1 l1 p2 l2
  proof -
    have 1: "getEstimatedPosition E s target observer frame ab 50 lt = (Inr (p1, l1), s)"
      using first [of 50 p1 l1] that by simp
    have 2: "getEstimatedPosition E s target observer frame ab 250 lt = (Inr (p2, l2), s)"
      using final [of 250 p2 l2] that by simp
    have 3: "getEstimatedPosition E s target observer frame ab 150 lt
              = (Inr (vec_add (vec_scale p1 (1 / 2)) (vec_scale p2 (1 / 2)),
                      l1 * (1 / 2) + l2 * (1 / 2)), s)"
      using between [of "[]" 100 200 "[]" 150 p1 l1 p2 l2] that by simp
    from 1 2 3 show ?thesis by simp
  qed
  from first final between special show ?thesis by blast
qed

theorem getEstimatedPosition_boundaries_witness:
  "naifId env0 (covered_manager True) ''X'' = Inr 5
   \<and> spkCoverageTimes (covered_manager True) 5 = Some [100, 200]
   \<and> spkpos_c env0 ''X'' 100 ''J2000'' (AberrationCorrection LightTime Reception) ''SSB''
       = ((100, 200, 0), 1, False)
   \<and> spkpos_c env0 ''X'' 200 ''J2000'' (AberrationCorrection LightTime Reception) ''SSB''
       = ((200, 400, 0), 2, False)
   \<and> getEstimatedPosition env0 (covered_manager True) ''X'' ''SSB'' ''J2000''
        (AberrationCorrection LightTime Reception) 50 0
       = (Inr ((100, 200, 0), 1), covered_manager True)
   \<and> getEstimatedPosition env0 (covered_manager True) ''X'' ''SSB'' ''J2000''
        (AberrationCorrection LightTime Reception) 250 0
       = (Inr ((200, 400, 0), 2), covered_manager True)
   \<and> getEstimatedPosition env0 (covered_manager True) ''X'' ''SSB'' ''J2000''
        (AberrationCorrection LightTime Reception) 150 0
       = (Inr ((150, 300, 0), 3 / 2), covered_manager True)"
proof -
  have h: "naifId env0 (covered_manager True) ''X'' = Inr 5" "(5::int) \<noteq> 0"
    "''SSB'' \<noteq> []" "''J2000'' \<noteq> []" "''X'' \<noteq> ''SSB''"
    "\<not> failed (covered_manager True)"
    "spkCoverageTimes (covered_manager True) 5 = Some [100, 200]"
    "sorted_wrt (<) [100, 200 :: real]"
    by simp_all
  have p: "spkpos_c env0 ''X'' 100 ''J2000'' (AberrationCorrection LightTime Reception) ''SSB''
       = ((100, 200, 0), 1, False)"
    "spkpos_c env0 ''X'' 200 ''J2000'' (AberrationCorrection LightTime Reception) ''SSB''
       = ((200, 400, 0), 2, False)"
    by (simp_all add: env0_def)
  from getEstimatedPosition_boundaries [OF h,
      where ab = "AberrationCorrection LightTime Reception" and t = 150 and lt = 0] h(1,7) p
  show ?thesis
    by simp
qed

subsection \<open>The position query\<close>

lemma vec_scale_twice: "vec_scale (vec_scale v (- 1)) (- 1) = v"
  by (cases v) simp

lemma negated_negated: "negated (negated r) = r"
  by (auto simp: negated_def vec_scale_twice split: prod.splits sum.splits)

lemma hasSpkCoverage_nonempty: "hasSpkCoverage E s A t = Inr a \<Longrightarrow> A \<noteq> []"
  by (auto simp: hasSpkCoverage_def split: if_splits)

text \<open>
  Claim C2. When exactly one of the bodies \<open>A\<close> and \<open>B\<close> has position coverage at
  the time, \<^verbatim>\<open>targetPosition\<close> of \<open>A\<close> seen from \<open>B\<close> is \<^verbatim>\<open>targetPosition\<close> of
  \<open>B\<close> seen from \<open>A\<close> with the vector multiplied by -1 (the light time, the state
  left and an error are the same). In both calls the body without coverage is estimated
  as seen from the covered one, and the estimate is negated in the call whose observer
  is the body without coverage.
\<close>

theorem targetPosition_swap:
  "hasSpkCoverage E s A t = Inr a \<Longrightarrow> hasSpkCoverage E s B t = Inr b \<Longrightarrow> a \<noteq> b \<Longrightarrow>
     targetPosition E s A B F corr t lt = negated (targetPosition E s B A F corr t lt)
     \<and> (b \<longrightarrow> targetPosition E s A B F corr t lt = getEstimatedPosition E s A B F corr t lt)
     \<and> (a \<longrightarrow> targetPosition E s A B F corr t lt
               = negated (getEstimatedPosition E s B A F corr t lt))"
proof -
  assume A: "hasSpkCoverage E s A t = Inr a" and B: "hasSpkCoverage E s B t = Inr b"
    and ab: "a \<noteq> b"
  have ne: "A \<noteq> []" "B \<noteq> []"
    using A B by (auto dest: hasSpkCoverage_nonempty)
  show ?thesis
  proof (cases "F = []")
    case True
    then show ?thesis
      using ab by (auto simp: targetPosition_def getEstimatedPosition_def negated_def)
  next
    case False
    show ?thesis
    proof (cases a)
      case True
      with ab have nb: "\<not> b" by simp
      have 1: "targetPosition E s A B F corr t lt
                 = negated (getEstimatedPosition E s B A F corr t lt)"
        using A B True nb ne False
        by (auto simp: targetPosition_def negated_def split: prod.splits sum.splits)
      have 2: "targetPosition E s B A F corr t lt = getEstimatedPosition E s B A F corr t lt"
        using A B True nb ne False by (simp add: targetPosition_def)
      from 1 2 True nb show ?thesis by simp
    next
      case False
      with ab have b: b by simp
      have 1: "targetPosition E s A B F corr t lt = getEstimatedPosition E s A B F corr t lt"
        using A B False b ne \<open>F \<noteq> []\<close> by (simp add: targetPosition_def)
      have 2: "targetPosition E s B A F corr t lt
                 = negated (getEstimatedPosition E s A B F corr t lt)"
        using A B False b ne \<open>F \<noteq> []\<close>
        by (auto simp: targetPosition_def negated_def split: prod.splits sum.splits)
      from 1 2 False b show ?thesis by (simp add: negated_negated)
    qed
  qed
qed

theorem targetPosition_swap_witness:
  "hasSpkCoverage env0 (covered_manager True) ''X'' 50 = Inr False
   \<and> hasSpkCoverage env0 (covered_manager True) ''SSB'' 50 = Inr True
   \<and> targetPosition env0 (covered_manager True) ''X'' ''SSB'' ''J2000''
        (AberrationCorrection LightTime Reception) 50 0
      = (Inr ((100, 200, 0), 1), covered_manager True)
   \<and> targetPosition env0 (covered_manager True) ''SSB'' ''X'' ''J2000''
        (AberrationCorrection LightTime Reception) 50 0
      = (Inr ((- 100, - 200, 0), 1), covered_manager True)"
proof -
  have n: "naifId env0 (covered_manager True) ''SSB'' = Inr 0"
    by (simp add: naifId_def env0_def)
  have a: "hasSpkCoverage env0 (covered_manager True) ''X'' 50 = Inr False"
    by (simp add: hasSpkCoverage_def)
  have b: "hasSpkCoverage env0 (covered_manager True) ''SSB'' 50 = Inr True"
    by (simp add: hasSpkCoverage_def n)
  have g: "getEstimatedPosition env0 (covered_manager True) ''X'' ''SSB'' ''J2000''
        (AberrationCorrection LightTime Reception) 50 0
      = (Inr ((100, 200, 0), 1), covered_manager True)"
    by (simp add: getEstimatedPosition_def lower_bound_def check_failed_def signal_def)
       (simp add: env0_def)
  from targetPosition_swap [OF a b, of "''J2000''" "AberrationCorrection LightTime Reception" 0]
    targetPosition_swap [OF b a, of "''J2000''" "AberrationCorrection LightTime Reception" 0]
    a b g
  show ?thesis
    by (simp add: negated_def)
qed

subsection \<open>The transform query\<close>

text \<open>
  What \<^verbatim>\<open>positionTransformMatrix\<close> computes: \<^verbatim>\<open>throwSpiceError\<close> has reset the flag before
  \<^verbatim>\<open>success\<close> is read, so \<^verbatim>\<open>success\<close> is always true and the estimator is not reached.
\<close>

lemma positionTransformMatrix_exact:
  "sourceFrame \<noteq> [] \<Longrightarrow> destinationFrame \<noteq> [] \<Longrightarrow>
   pxform_c E sourceFrame destinationFrame t = (m, err) \<Longrightarrow>
     positionTransformMatrix E s sourceFrame destinationFrame t
       = (if (failed s \<or> err) \<and> useExceptions s then Inl SpiceException
          else Inr (transpose_dmat3 m),
          s\<lparr>failed := False\<rparr>)"
  by (simp add: positionTransformMatrix_def check_failed_def signal_def throwSpiceError_def
      Let_def)

text \<open>
  Claim C3. The code does not reach the fallback the claim describes. From the frame
  \<^verbatim>\<open>BROKEN\<close> at the time 20, \<^verbatim>\<open>pxform_c\<close> signals an error, and the estimator answers
  with the quarter turn computed at the last boundary point, 10. With exception handling
  on, \<^verbatim>\<open>positionTransformMatrix\<close> throws; with exception handling off it returns the
  transposed buffer of the failed call, the identity, not the estimate.
\<close>

theorem positionTransformMatrix_fallback_missed:
  "snd (pxform_c env0 ''BROKEN'' ''J2000'' 20)
   \<and> fst (getEstimatedTransformMatrix env0 (covered_manager True) ''BROKEN'' ''J2000'' 20)
       = Inr ((0, 1, 0), (- 1, 0, 0), (0, 0, 1))
   \<and> fst (positionTransformMatrix env0 (covered_manager True) ''BROKEN'' ''J2000'' 20)
       = Inl SpiceException
   \<and> fst (getEstimatedTransformMatrix env0 (covered_manager False) ''BROKEN'' ''J2000'' 20)
       = Inr ((0, 1, 0), (- 1, 0, 0), (0, 0, 1))
   \<and> fst (positionTransformMatrix env0 (covered_manager False) ''BROKEN'' ''J2000'' 20)
       = Inr ((1, 0, 0), (0, 1, 0), (0, 0, 1))"
proof -
  have f: "frameId env0 (covered_manager exc) ''BROKEN'' = Inr 3" for exc
    by (simp add: frameId_def env0_def)
  have p: "pxform_c env0 ''BROKEN'' ''J2000'' 20 = (dmat3_diag 1, True)"
    "pxform_c env0 ''BROKEN'' ''J2000'' 10 = (((0, 1, 0), (- 1, 0, 0), (0, 0, 1)), False)"
    by (simp_all add: env0_def)
  have e: "fst (getEstimatedTransformMatrix env0 (covered_manager exc) ''BROKEN'' ''J2000'' 20)
       = Inr ((0, 1, 0), (- 1, 0, 0), (0, 0, 1))" for exc
    by (simp add: getEstimatedTransformMatrix_def f p lower_bound_def upper_bound_def
        check_failed_def signal_def)
  have x: "fst (positionTransformMatrix env0 (covered_manager True) ''BROKEN'' ''J2000'' 20)
       = Inl SpiceException"
    "fst (positionTransformMatrix env0 (covered_manager False) ''BROKEN'' ''J2000'' 20)
       = Inr ((1, 0, 0), (0, 1, 0), (0, 0, 1))"
    by (simp_all add: positionTransformMatrix_exact [OF _ _ p(1)] dmat3_diag_def)
  from p(1) e x show ?thesis
    by simp
qed

end
